theory Spec2Isabelle
  imports Complex_Main "HOL-Library.Word"
begin

chapter \<open>The model\<close>

section \<open>Time\<close>

text \<open>
  A \<^verbatim>\<open>time.Time\<close> is an instant, counted here in nanoseconds from Go's zero time
  (the value of an unset \<^verbatim>\<open>time.Time\<close> field). A \<^verbatim>\<open>time.Duration\<close> is a signed
  64-bit count of nanoseconds; its arithmetic wraps around as Go's \<^verbatim>\<open>int64\<close> does.
\<close>

type_synonym time = int
type_synonym duration = "64 word"



definition time_Hour :: duration where
  "time_Hour = 3600000000000"

text \<open>\<^verbatim>\<open>t.Add(d)\<close>, \<^verbatim>\<open>t.Before(u)\<close> and \<^verbatim>\<open>t.After(u)\<close>.\<close>

definition time_Add :: "time \<Rightarrow> duration \<Rightarrow> time" where
  "time_Add t d = t + sint d"


definition time_After :: "time \<Rightarrow> time \<Rightarrow> bool" where
  "time_After t u = (u < t)"




section \<open>Login rate limiter\<close>

text \<open>
  \<^verbatim>\<open>LoginAttemptInfo\<close> and \<^verbatim>\<open>LoginLimiter\<close> of package utils. The counters are Go
  \<^verbatim>\<open>int\<close>s (64 bit), compared as signed numbers. The mutex is not part of the model: each
  method is one atomic step on the limiter, and the clock reading \<^verbatim>\<open>time.Now()\<close> is an
  argument.
\<close>

record LoginAttemptInfo =
  Count :: "64 word"
  LastTry :: time
  LockUntil :: time

record LoginLimiter =
  attempts :: "string \<rightharpoonup> LoginAttemptInfo"
  maxAttempts :: "64 word"
  lockDuration :: duration
  cleanInterval :: duration



definition ResetAttempts :: "LoginLimiter \<Rightarrow> string \<Rightarrow> LoginLimiter" where
  "ResetAttempts l username = l\<lparr>attempts := (attempts l)(username := None)\<rparr>"




section \<open>Floating-point numbers\<close>

text \<open>
  Prices, rates and amounts are \<^verbatim>\<open>float64\<close>. Their arithmetic is not fixed here: the
  operations that the handlers use are a parameter \<open>F\<close>, and every property below holds
  whatever they compute. \<open>f_of_int\<close> is the conversion \<^verbatim>\<open>float64(n)\<close>, \<open>f_Pow\<close> is
  \<^verbatim>\<open>math.Pow\<close> and \<open>f_0_01\<close> is the constant \<^verbatim>\<open>0.01\<close>.
\<close>

record 'f float64_ops =
  f_add :: "'f \<Rightarrow> 'f \<Rightarrow> 'f"
  f_mul :: "'f \<Rightarrow> 'f \<Rightarrow> 'f"
  f_div :: "'f \<Rightarrow> 'f \<Rightarrow> 'f"
  f_less :: "'f \<Rightarrow> 'f \<Rightarrow> bool"
  f_of_int :: "int \<Rightarrow> 'f"
  f_Pow :: "'f \<Rightarrow> 'f \<Rightarrow> 'f"
  f_0_01 :: 'f

text \<open>Exact arithmetic on the reals, for running the model on examples.\<close>

definition pow_real :: "real \<Rightarrow> int \<Rightarrow> real" where
  "pow_real b e = (if 0 \<le> e then b ^ nat e else 1 / b ^ nat (- e))"

definition exact_ops :: "real float64_ops" where
  "exact_ops =
     \<lparr>f_add = (\<lambda>a b. a + b), f_mul = (\<lambda>a b. a * b), f_div = (\<lambda>a b. a / b),
      f_less = (\<lambda>a b. a < b), f_of_int = real_of_int,
      f_Pow = (\<lambda>b e. pow_real b \<lfloor>e\<rfloor>), f_0_01 = 1 / 100\<rparr>"

section \<open>Tables\<close>

text \<open>
  One record per model struct, with the fields that the handlers below read or write
  (the bookkeeping columns \<^verbatim>\<open>CreatedAt\<close> and \<^verbatim>\<open>UpdatedAt\<close> and the free-text columns are
  left out). Field names carry a prefix for their struct. An id is a Go \<^verbatim>\<open>uint\<close>, a
  Go \<^verbatim>\<open>int\<close> is a 64-bit word read as signed, a nullable column is an \<open>option\<close>.
\<close>

record 'f Key =
  k_ID :: nat
  k_Code :: string
  k_KeyCode :: string
  k_TypeID :: nat
  k_TypeName :: string
  k_Hours :: "64 word"
  k_Price :: 'f
  k_SoftwareID :: nat
  k_SoftwareName :: string
  k_Status :: string
  k_CreatorID :: nat
  k_CreatorType :: string
  k_SalespersonID :: nat
  k_UserID :: "nat option"
  k_DeviceInfo :: string
  k_UsedAt :: "time option"
  k_ExpiredAt :: "time option"
  k_ActivatedAt :: "time option"
  k_IsBlacklisted :: bool

record 'f KeyType =
  kt_ID :: nat
  kt_Name :: string
  kt_Hours :: "64 word"
  kt_Price :: 'f
  kt_Status :: string
  kt_IsActive :: bool

record Software =
  sw_ID :: nat
  sw_Name :: string
  sw_Status :: string
  sw_IsActive :: bool

record SoftwareKeyType =
  skt_ID :: nat
  skt_SoftwareID :: nat
  skt_KeyTypeID :: nat
  skt_IsActive :: bool

record 'f Salesperson =
  sp_ID :: nat
  sp_Name :: string
  sp_TotalSales :: 'f
  sp_TotalCommission :: 'f
  sp_ParentID :: "nat option"
  sp_Level :: "64 word"
  sp_ChildrenCount :: "64 word"
  sp_ParentCommissionRate :: 'f

record 'f SalespersonProduct =
  spp_ID :: nat
  spp_SalespersonID :: nat
  spp_SoftwareID :: nat
  spp_KeyTypeID :: nat
  spp_CommissionRate :: 'f
  spp_KeyGenLimit :: "64 word"
  spp_KeysGenerated :: "64 word"
  spp_IsActive :: bool

record 'f SalespersonSale =
  sale_ID :: nat
  sale_SalespersonID :: nat
  sale_KeyID :: nat
  sale_SoftwareID :: nat
  sale_KeyTypeID :: nat
  sale_SaleAmount :: 'f
  sale_CommissionRate :: 'f
  sale_Commission :: 'f
  sale_Status :: string

record 'f SalespersonAgentCommission =
  ac_ID :: nat
  ac_SaleID :: nat
  ac_SalespersonID :: nat
  ac_AgentID :: nat
  ac_AgentLevel :: "64 word"
  ac_OriginalAmount :: 'f
  ac_CommissionRate :: 'f
  ac_CommissionAmount :: 'f
  ac_Status :: string
  ac_SettlementID :: "nat option"

record SalespersonAgentInvitation =
  inv_ID :: nat
  inv_InviterID :: nat
  inv_InviteeID :: "nat option"
  inv_InviteCode :: string
  inv_Email :: string
  inv_Phone :: string
  inv_Status :: string
  inv_AcceptedAt :: "time option"
  inv_ExpiredAt :: time

text \<open>
  The store behind \<^verbatim>\<open>database.GetDB()\<close>: one list of rows per table, named as
  \<^verbatim>\<open>TableName()\<close> names it, in primary-key order. Queries compare strings exactly.
  A statement of the store succeeds unless a handler below says otherwise.
\<close>

record 'f database =
  tbl_keys :: "'f Key list"
  tbl_key_types :: "'f KeyType list"
  tbl_softwares :: "Software list"
  tbl_software_key_types :: "SoftwareKeyType list"
  tbl_salespersons :: "'f Salesperson list"
  tbl_salesperson_products :: "'f SalespersonProduct list"
  tbl_salesperson_sales :: "'f SalespersonSale list"
  tbl_salesperson_agent_commissions :: "'f SalespersonAgentCommission list"
  tbl_salesperson_agent_invitations :: "SalespersonAgentInvitation list"

text \<open>
  \<^verbatim>\<open>Where(...).First(&row)\<close> is \<^const>\<open>find\<close> on the table, \<^verbatim>\<open>Where(...).Find(&rows)\<close>
  is \<^const>\<open>filter\<close>. An update statement rewrites the rows that its condition selects;
  an insert appends rows under fresh ids.
\<close>

definition update_where :: "('r \<Rightarrow> bool) \<Rightarrow> ('r \<Rightarrow> 'r) \<Rightarrow> 'r list \<Rightarrow> 'r list" where
  "update_where P f rows = map (\<lambda>r. if P r then f r else r) rows"

definition next_id :: "nat list \<Rightarrow> nat" where
  "next_id ids = Suc (fold max ids 0)"

section \<open>Key store\<close>

subsection \<open>BatchCreateKeys\<close>

record BatchCreateRequest =
  bc_TypeID :: nat
  bc_SoftwareID :: nat
  bc_Count :: "64 word"
  bc_CreatorID :: nat
  bc_CreatorType :: string
  bc_SalespersonID :: nat

text \<open>
  The failures of \<^verbatim>\<open>BatchCreateKeys\<close>, in the order of the handler's checks. The first
  eight are answered with status 400, the two about the salesperson's product with 403,
  the failed insert with 500.
\<close>

datatype BatchCreate_error =
  BC_CountOutOfRange
  | BC_InvalidCreatorType
  | BC_MissingSalespersonID
  | BC_InvalidKeyType
  | BC_KeyTypeInactive
  | BC_InvalidSoftware
  | BC_SoftwareInactive
  | BC_NotBound
  | BC_NoProductPermission
  | BC_LimitExceeded
  | BC_SaveFailed

text \<open>
  The loop that fills \<^verbatim>\<open>keys[i]\<close>. The two code generators draw random characters;
  \<open>gen i\<close> stands for the pair of codes drawn for the \<open>i\<close>-th key.
\<close>

definition make_keys ::
  "(nat \<Rightarrow> string \<times> string) \<Rightarrow> BatchCreateRequest \<Rightarrow> string \<Rightarrow> 'f KeyType \<Rightarrow> Software
   \<Rightarrow> 'f Key list" where
  "make_keys gen req creatorType keyType software =
     map (\<lambda>i. \<lparr>k_ID = 0,
               k_Code = fst (gen i),
               k_KeyCode = snd (gen i),
               k_TypeID = bc_TypeID req,
               k_TypeName = kt_Name keyType,
               k_Hours = kt_Hours keyType,
               k_Price = kt_Price keyType,
               k_SoftwareID = bc_SoftwareID req,
               k_SoftwareName = sw_Name software,
               k_Status = ''unused'',
               k_CreatorID = bc_CreatorID req,
               k_CreatorType = creatorType,
               k_SalespersonID = bc_SalespersonID req,
               k_UserID = None,
               k_DeviceInfo = [],
               k_UsedAt = None,
               k_ExpiredAt = None,
               k_ActivatedAt = None,
               k_IsBlacklisted = False\<rparr>)
       [0 ..< nat (sint (bc_Count req))]"

text \<open>
  \<^verbatim>\<open>tx.Create(&keys)\<close>: the rows get consecutive fresh ids. The insert fails when a
  code or an activation code is already in the table or occurs twice in the batch (both
  columns have a unique index).
\<close>

definition assign_ids :: "nat \<Rightarrow> 'f Key list \<Rightarrow> 'f Key list" where
  "assign_ids start ks = map (\<lambda>(i, k). k\<lparr>k_ID := start + i\<rparr>) (enumerate 0 ks)"

definition unique_codes :: "'f Key list \<Rightarrow> bool" where
  "unique_codes ks = (distinct (map k_Code ks) \<and> distinct (map k_KeyCode ks))"

text \<open>
  The writes for a salesperson's batch, inside the transaction: the product row is looked
  up again (this time without the \<^verbatim>\<open>is_active\<close> condition); when there is one, its
  counter grows by the count, a sale is recorded and the salesperson's totals grow.
\<close>

definition record_sale ::
  "'f float64_ops \<Rightarrow> BatchCreateRequest \<Rightarrow> 'f KeyType \<Rightarrow> 'f database \<Rightarrow> 'f database" where
  "record_sale F req keyType tx =
     (case find (\<lambda>p. spp_SalespersonID p = bc_SalespersonID req
                     \<and> spp_SoftwareID p = bc_SoftwareID req
                     \<and> spp_KeyTypeID p = bc_TypeID req) (tbl_salesperson_products tx) of
        None \<Rightarrow> tx
      | Some salespersonProduct \<Rightarrow>
          let totalAmount = f_mul F (f_of_int F (sint (bc_Count req))) (kt_Price keyType);
              commission = f_mul F totalAmount (spp_CommissionRate salespersonProduct);
              sale = \<lparr>sale_ID = next_id (map sale_ID (tbl_salesperson_sales tx)),
                      sale_SalespersonID = bc_SalespersonID req,
                      sale_KeyID = 0,
                      sale_SoftwareID = bc_SoftwareID req,
                      sale_KeyTypeID = bc_TypeID req,
                      sale_SaleAmount = totalAmount,
                      sale_CommissionRate = spp_CommissionRate salespersonProduct,
                      sale_Commission = commission,
                      sale_Status = ''pending''\<rparr>
          in tx\<lparr>tbl_salesperson_products :=
                  update_where (\<lambda>p. spp_ID p = spp_ID salespersonProduct)
                    (\<lambda>p. p\<lparr>spp_KeysGenerated := spp_KeysGenerated p + bc_Count req\<rparr>)
                    (tbl_salesperson_products tx),
                tbl_salesperson_sales := tbl_salesperson_sales tx @ [sale],
                tbl_salespersons :=
                  update_where (\<lambda>s. sp_ID s = bc_SalespersonID req)
                    (\<lambda>s. s\<lparr>sp_TotalSales := f_add F (sp_TotalSales s) totalAmount,
                            sp_TotalCommission := f_add F (sp_TotalCommission s) commission\<rparr>)
                    (tbl_salespersons tx)\<rparr>)"

definition BatchCreateKeys ::
  "'f float64_ops \<Rightarrow> (nat \<Rightarrow> string \<times> string) \<Rightarrow> 'f database \<Rightarrow> BatchCreateRequest
   \<Rightarrow> (BatchCreate_error + 'f Key list) \<times> 'f database" where
  "BatchCreateKeys F gen db req =
     (if sint (bc_Count req) \<le> 0 \<or> 1000 < sint (bc_Count req) then (Inl BC_CountOutOfRange, db)
      else
        let creatorType = (if bc_CreatorType req = [] then ''admin'' else bc_CreatorType req) in
        if creatorType \<noteq> ''admin'' \<and> creatorType \<noteq> ''salesperson''
        then (Inl BC_InvalidCreatorType, db)
        else if creatorType = ''salesperson'' \<and> bc_SalespersonID req = 0
        then (Inl BC_MissingSalespersonID, db)
        else
          case find (\<lambda>t. kt_ID t = bc_TypeID req) (tbl_key_types db) of
            None \<Rightarrow> (Inl BC_InvalidKeyType, db)
          | Some keyType \<Rightarrow>
          if kt_Status keyType \<noteq> ''active'' \<or> \<not> kt_IsActive keyType
          then (Inl BC_KeyTypeInactive, db)
          else
          case find (\<lambda>s. sw_ID s = bc_SoftwareID req) (tbl_softwares db) of
            None \<Rightarrow> (Inl BC_InvalidSoftware, db)
          | Some software \<Rightarrow>
          if sw_Status software \<noteq> ''active'' \<or> \<not> sw_IsActive software
          then (Inl BC_SoftwareInactive, db)
          else
          case find (\<lambda>b. skt_SoftwareID b = bc_SoftwareID req \<and> skt_KeyTypeID b = bc_TypeID req)
                 (tbl_software_key_types db) of
            None \<Rightarrow> (Inl BC_NotBound, db)
          | Some binding \<Rightarrow>
          let permission =
            (if creatorType = ''salesperson''
             then (case find (\<lambda>p. spp_SalespersonID p = bc_SalespersonID req
                                 \<and> spp_SoftwareID p = bc_SoftwareID req
                                 \<and> spp_KeyTypeID p = bc_TypeID req
                                 \<and> spp_IsActive p) (tbl_salesperson_products db) of
                     None \<Rightarrow> Some BC_NoProductPermission
                   | Some salespersonProduct \<Rightarrow>
                       if 0 < sint (spp_KeyGenLimit salespersonProduct)
                          \<and> sint (spp_KeyGenLimit salespersonProduct)
                              < sint (spp_KeysGenerated salespersonProduct + bc_Count req)
                       then Some BC_LimitExceeded else None)
             else None)
          in
          case permission of
            Some e \<Rightarrow> (Inl e, db)
          | None \<Rightarrow>
          let keys = assign_ids (next_id (map k_ID (tbl_keys db)))
                       (make_keys gen req creatorType keyType software)
          in
          if \<not> unique_codes (tbl_keys db @ keys) then (Inl BC_SaveFailed, db)
          else
            let tx = db\<lparr>tbl_keys := tbl_keys db @ keys\<rparr>;
                tx = (if creatorType = ''salesperson'' then record_sale F req keyType tx else tx)
            in (Inr keys, tx))"

subsection \<open>ActivateKey\<close>

record ActivateRequest =
  act_Code :: string
  act_KeyCode :: string
  act_SoftwareID :: nat
  act_DeviceInfo :: string
  act_ActivatorID :: nat

text \<open>
  The failures of \<^verbatim>\<open>ActivateKey\<close>: status 404 for the unknown key, 400 for the
  others. \<open>Act_InvalidStatus\<close> carries the status found, as the message does.
\<close>

datatype Activate_error =
  Act_EmptyCode
  | Act_NoSoftwareID
  | Act_KeyNotFound
  | Act_InvalidStatus string
  | Act_WrongSoftware
  | Act_SoftwareNotFound
  | Act_SoftwareInactive

definition ActivateKey ::
  "'f database \<Rightarrow> ActivateRequest \<Rightarrow> time
   \<Rightarrow> (Activate_error + 'f Key \<times> string) \<times> 'f database" where
  "ActivateKey db req now =
     (if act_Code req = [] \<or> act_KeyCode req = [] then (Inl Act_EmptyCode, db)
      else if act_SoftwareID req = 0 then (Inl Act_NoSoftwareID, db)
      else
        case find (\<lambda>k. k_Code k = act_Code req \<and> k_KeyCode k = act_KeyCode req) (tbl_keys db) of
          None \<Rightarrow> (Inl Act_KeyNotFound, db)
        | Some key \<Rightarrow>
        if k_Status key \<noteq> ''unused'' then (Inl (Act_InvalidStatus (k_Status key)), db)
        else if k_SoftwareID key \<noteq> act_SoftwareID req then (Inl Act_WrongSoftware, db)
        else
        case find (\<lambda>s. sw_ID s = act_SoftwareID req) (tbl_softwares db) of
          None \<Rightarrow> (Inl Act_SoftwareNotFound, db)
        | Some software \<Rightarrow>
        if sw_Status software \<noteq> ''active'' \<or> \<not> sw_IsActive software
        then (Inl Act_SoftwareInactive, db)
        else
          let expiredAt = time_Add now (k_Hours key * time_Hour);
              key = key\<lparr>k_Status := ''used'',
                        k_UsedAt := Some now,
                        k_ActivatedAt := Some now,
                        k_ExpiredAt := Some expiredAt,
                        k_DeviceInfo := act_DeviceInfo req,
                        k_UserID := Some (act_ActivatorID req)\<rparr>
          in (Inr (key, sw_Name software),
              db\<lparr>tbl_keys := update_where (\<lambda>k. k_ID k = k_ID key) (\<lambda>_. key) (tbl_keys db)\<rparr>))"

subsection \<open>VoidKey\<close>

text \<open>
  The path parameter is \<open>None\<close> when \<^verbatim>\<open>ParamsInt\<close> cannot read a number. A bad id is
  answered with status 400, an unknown one with 404, a key that is void already with 400.
\<close>

datatype Void_error = Void_InvalidID | Void_KeyNotFound | Void_AlreadyVoid

definition VoidKey ::
  "'f database \<Rightarrow> int option \<Rightarrow> (Void_error + 'f Key) \<times> 'f database" where
  "VoidKey db param =
     (case param of
        None \<Rightarrow> (Inl Void_InvalidID, db)
      | Some n \<Rightarrow>
        if n \<le> 0 then (Inl Void_InvalidID, db)
        else
        case find (\<lambda>k. int (k_ID k) = n) (tbl_keys db) of
          None \<Rightarrow> (Inl Void_KeyNotFound, db)
        | Some key \<Rightarrow>
        if k_Status key = ''void'' then (Inl Void_AlreadyVoid, db)
        else (Inr (key\<lparr>k_Status := ''void''\<rparr>),
              db\<lparr>tbl_keys := update_where (\<lambda>k. k_ID k = k_ID key)
                                (\<lambda>k. k\<lparr>k_Status := ''void''\<rparr>) (tbl_keys db)\<rparr>))"

subsection \<open>Sequences of activations and voidings\<close>

text \<open>
  A request to one of the two handlers that change the status of a key, and the store
  after a sequence of such requests, each handled in turn.
\<close>

datatype key_op = Op_Activate ActivateRequest time | Op_Void "int option"

fun apply_key_op :: "'f database \<Rightarrow> key_op \<Rightarrow> 'f database" where
  "apply_key_op db (Op_Activate req now) = snd (ActivateKey db req now)"
| "apply_key_op db (Op_Void param) = snd (VoidKey db param)"

definition run_key_ops :: "'f database \<Rightarrow> key_op list \<Rightarrow> 'f database" where
  "run_key_ops db ops = foldl apply_key_op db ops"

text \<open>Stores and rows for running the model on examples.\<close>

definition empty_db :: "real database" where
  "empty_db =
     \<lparr>tbl_keys = [], tbl_key_types = [], tbl_softwares = [], tbl_software_key_types = [],
      tbl_salespersons = [], tbl_salesperson_products = [], tbl_salesperson_sales = [],
      tbl_salesperson_agent_commissions = [], tbl_salesperson_agent_invitations = []\<rparr>"

definition example_key :: "nat \<Rightarrow> string \<Rightarrow> string \<Rightarrow> 64 word \<Rightarrow> string \<Rightarrow> real Key" where
  "example_key n code keyCode hours status =
     \<lparr>k_ID = n, k_Code = code, k_KeyCode = keyCode, k_TypeID = 2, k_TypeName = ''month'',
      k_Hours = hours, k_Price = 999 / 100, k_SoftwareID = 1, k_SoftwareName = ''editor'',
      k_Status = status, k_CreatorID = 1, k_CreatorType = ''admin'', k_SalespersonID = 0,
      k_UserID = None, k_DeviceInfo = [], k_UsedAt = None, k_ExpiredAt = None,
      k_ActivatedAt = None, k_IsBlacklisted = False\<rparr>"

definition example_software :: Software where
  "example_software = \<lparr>sw_ID = 1, sw_Name = ''editor'', sw_Status = ''active'', sw_IsActive = True\<rparr>"

definition db6 :: "real database" where
  "db6 = empty_db\<lparr>tbl_keys := [example_key 1 ''AAAA'' ''K1'' 720 ''used'',
                                example_key 2 ''BBBB'' ''K2'' 720 ''void''],
                   tbl_softwares := [example_software]\<rparr>"

definition db4 :: "real database" where
  "db4 = empty_db\<lparr>tbl_keys := [example_key 1 ''AAAA'' ''K1'' 2562048 ''unused''],
                   tbl_softwares := [example_software]\<rparr>"

definition req4 :: ActivateRequest where
  "req4 = \<lparr>act_Code = ''AAAA'', act_KeyCode = ''K1'', act_SoftwareID = 1,
           act_DeviceInfo = ''pc'', act_ActivatorID = 7\<rparr>"

definition example_gen :: "nat \<Rightarrow> string \<times> string" where
  "example_gen i = (replicate (Suc i) CHR ''C'', replicate (Suc i) CHR ''K'')"

definition db7 :: "real database" where
  "db7 = empty_db
     \<lparr>tbl_key_types := [\<lparr>kt_ID = 2, kt_Name = ''month'', kt_Hours = 720, kt_Price = 999 / 100,
                          kt_Status = ''active'', kt_IsActive = True\<rparr>],
      tbl_softwares := [example_software],
      tbl_software_key_types :=
        [\<lparr>skt_ID = 1, skt_SoftwareID = 1, skt_KeyTypeID = 2, skt_IsActive = True\<rparr>]\<rparr>"

definition req7 :: BatchCreateRequest where
  "req7 = \<lparr>bc_TypeID = 2, bc_SoftwareID = 1, bc_Count = 5, bc_CreatorID = 1,
           bc_CreatorType = [], bc_SalespersonID = 0\<rparr>"

section \<open>Salesperson hierarchy\<close>

definition MaxAgentLevel :: "64 word" where
  "MaxAgentLevel = 5"

subsection \<open>isCircularReference\<close>

text \<open>
  The check recurses into the children of \<open>childID\<close>, each found by a query on
  \<^verbatim>\<open>parent_id\<close>. The store may fail such a query: the check then logs the error and
  answers no, because (so the comment in the source) a failed query shall not block the
  operation. \<open>fails\<close> tells for which salespersons the query for their children fails.
  The first argument bounds the depth of the calls: \<open>None\<close> is the answer of a run that
  would need a deeper stack than that. \<open>check_children\<close> is the \<^verbatim>\<open>for\<close> loop over the
  children.
\<close>

fun isCircularReference ::
  "nat \<Rightarrow> (nat \<Rightarrow> bool) \<Rightarrow> 'f database \<Rightarrow> nat \<Rightarrow> nat \<Rightarrow> bool option"
  and check_children ::
  "nat \<Rightarrow> (nat \<Rightarrow> bool) \<Rightarrow> 'f database \<Rightarrow> nat \<Rightarrow> 'f Salesperson list \<Rightarrow> bool option"
  where
  "isCircularReference 0 fails db potentialParentID childID = None"
| "isCircularReference (Suc depth) fails db potentialParentID childID =
     (if potentialParentID = childID then Some True
      else if fails childID then Some False
      else
        let children = filter (\<lambda>s. sp_ParentID s = Some childID) (tbl_salespersons db) in
        if children = [] then Some False
        else check_children depth fails db potentialParentID children)"
| "check_children depth fails db potentialParentID [] = Some False"
| "check_children depth fails db potentialParentID (child # rest) =
     (if sp_ID child = potentialParentID then Some True
      else
        case isCircularReference depth fails db potentialParentID (sp_ID child) of
          None \<Rightarrow> None
        | Some True \<Rightarrow> Some True
        | Some False \<Rightarrow> check_children depth fails db potentialParentID rest)"

subsection \<open>AcceptAgentInvitation\<close>

text \<open>
  The request: the invite code of the body and the header \<^verbatim>\<open>X-Salesperson-ID\<close> as
  \<^verbatim>\<open>strconv.Atoi\<close> reads it (\<open>None\<close> when it is not a number).
\<close>

record AcceptRequest =
  acc_InviteCode :: string
  acc_SalespersonID :: "int option"

text \<open>
  The statements of the transaction. The store may fail any one of them; the handler then
  returns with status 500 and the deferred function rolls the transaction back.
\<close>

datatype tx_step = Save_salesperson | Update_inviter | Save_invitation | Commit

text \<open>
  The failures of \<^verbatim>\<open>AcceptAgentInvitation\<close>, in the order of its checks: status 404
  for the three lookups that find nothing, 500 for a failed statement, 400 for the others.
\<close>

datatype Accept_error =
  Acc_EmptyInviteCode
  | Acc_InvitationNotFound
  | Acc_InvitationExpired
  | Acc_InvalidSalespersonID
  | Acc_SalespersonNotFound
  | Acc_InviterNotFound
  | Acc_MaxLevelReached
  | Acc_AlreadyHasParent
  | Acc_CircularReference
  | Acc_LevelExceeded
  | Acc_StoreFailed tx_step

text \<open>
  \<open>now\<close> is the clock reading of the expiry check, \<open>now'\<close> the one stored as the time of
  acceptance. \<open>fault\<close> names the statement of the transaction that the store fails, if
  any, and \<open>fails\<close> the children queries of the cycle check that it fails. The writes go
  to the transaction \<open>tx\<close>; the store becomes \<open>tx\<close> at the commit and stays \<open>db\<close>
  otherwise. The answer carries the id and the name of the inviter.
\<close>

definition AcceptAgentInvitation ::
  "nat \<Rightarrow> tx_step option \<Rightarrow> (nat \<Rightarrow> bool) \<Rightarrow> 'f database \<Rightarrow> AcceptRequest \<Rightarrow> time \<Rightarrow> time
   \<Rightarrow> ((Accept_error + nat \<times> string) \<times> 'f database) option" where
  "AcceptAgentInvitation depth fault fails db req now now' =
     (if acc_InviteCode req = [] then Some (Inl Acc_EmptyInviteCode, db)
      else
      case find (\<lambda>i. inv_InviteCode i = acc_InviteCode req \<and> inv_Status i = ''pending'')
             (tbl_salesperson_agent_invitations db) of
        None \<Rightarrow> Some (Inl Acc_InvitationNotFound, db)
      | Some invitation \<Rightarrow>
      if time_After now (inv_ExpiredAt invitation)
      then Some (Inl Acc_InvitationExpired,
                 db\<lparr>tbl_salesperson_agent_invitations :=
                      update_where (\<lambda>i. inv_ID i = inv_ID invitation)
                        (\<lambda>i. i\<lparr>inv_Status := ''expired''\<rparr>)
                        (tbl_salesperson_agent_invitations db)\<rparr>)
      else
      case acc_SalespersonID req of
        None \<Rightarrow> Some (Inl Acc_InvalidSalespersonID, db)
      | Some salespersonID \<Rightarrow>
      case find (\<lambda>s. int (sp_ID s) = salespersonID) (tbl_salespersons db) of
        None \<Rightarrow> Some (Inl Acc_SalespersonNotFound, db)
      | Some salesperson \<Rightarrow>
      case find (\<lambda>s. sp_ID s = inv_InviterID invitation) (tbl_salespersons db) of
        None \<Rightarrow> Some (Inl Acc_InviterNotFound, db)
      | Some inviter \<Rightarrow>
      if sint MaxAgentLevel \<le> sint (sp_Level inviter) then Some (Inl Acc_MaxLevelReached, db)
      else if sp_ParentID salesperson \<noteq> None then Some (Inl Acc_AlreadyHasParent, db)
      else
      case isCircularReference depth fails db (inv_InviterID invitation) (nat salespersonID) of
        None \<Rightarrow> None
      | Some True \<Rightarrow> Some (Inl Acc_CircularReference, db)
      | Some False \<Rightarrow>
      let newLevel = sp_Level inviter + 1 in
      if sint MaxAgentLevel < sint newLevel then Some (Inl Acc_LevelExceeded, db)
      else
      let salesperson = salesperson\<lparr>sp_ParentID := Some (inv_InviterID invitation),
                                     sp_Level := sp_Level inviter + 1\<rparr>
      in
      if fault = Some Save_salesperson then Some (Inl (Acc_StoreFailed Save_salesperson), db)
      else
      let tx = db\<lparr>tbl_salespersons :=
                   update_where (\<lambda>s. sp_ID s = sp_ID salesperson) (\<lambda>_. salesperson)
                     (tbl_salespersons db)\<rparr>
      in
      if fault = Some Update_inviter then Some (Inl (Acc_StoreFailed Update_inviter), db)
      else
      let tx = tx\<lparr>tbl_salespersons :=
                   update_where (\<lambda>s. sp_ID s = sp_ID inviter)
                     (\<lambda>s. s\<lparr>sp_ChildrenCount := sp_ChildrenCount s + 1\<rparr>)
                     (tbl_salespersons tx)\<rparr>;
          invitation = invitation\<lparr>inv_Status := ''accepted'',
                                   inv_InviteeID := Some (sp_ID salesperson),
                                   inv_AcceptedAt := Some now'\<rparr>
      in
      if fault = Some Save_invitation then Some (Inl (Acc_StoreFailed Save_invitation), db)
      else
      let tx = tx\<lparr>tbl_salesperson_agent_invitations :=
                   update_where (\<lambda>i. inv_ID i = inv_ID invitation) (\<lambda>_. invitation)
                     (tbl_salesperson_agent_invitations tx)\<rparr>
      in
      if fault = Some Commit then Some (Inl (Acc_StoreFailed Commit), db)
      else Some (Inr (sp_ID inviter, sp_Name inviter), tx))"

subsection \<open>The parent relation\<close>

text \<open>
  The pairs (child, parent) on record, and the descendants of a salesperson: those who
  reach it by one or more steps from child to parent.
\<close>

definition parent_rel :: "'f database \<Rightarrow> (nat \<times> nat) set" where
  "parent_rel db =
     {(sp_ID s, a) | s a. s \<in> set (tbl_salespersons db) \<and> sp_ParentID s = Some a}"

definition descendant :: "'f database \<Rightarrow> nat \<Rightarrow> nat \<Rightarrow> bool" where
  "descendant db a x = ((x, a) \<in> (parent_rel db)\<^sup>+)"

subsection \<open>CreateAgentInvitation\<close>

text \<open>
  The two patterns of the handler, \<^verbatim>\<open>^[0-9]{5,15}$\<close> for the phone number and
  \<^verbatim>\<open>^[a-zA-Z0-9._%+-]+@[a-zA-Z0-9.-]+\.[a-zA-Z]{2,}$\<close> for the e-mail address. No
  character of the local part is an \<open>@\<close>, so the local part ends at the first \<open>@\<close>; no
  character of the last label is a dot, so the last label starts after the last dot.
\<close>

definition is_digit :: "char \<Rightarrow> bool" where
  "is_digit c = (c \<in> set ''0123456789'')"

definition is_letter :: "char \<Rightarrow> bool" where
  "is_letter c = (c \<in> set ''abcdefghijklmnopqrstuvwxyzABCDEFGHIJKLMNOPQRSTUVWXYZ'')"

definition phoneRegex_match :: "string \<Rightarrow> bool" where
  "phoneRegex_match s = (5 \<le> length s \<and> length s \<le> 15 \<and> list_all is_digit s)"

definition emailRegex_match :: "string \<Rightarrow> bool" where
  "emailRegex_match s =
     (let local = takeWhile (\<lambda>c. c \<noteq> CHR ''@'') s;
          rest = drop (Suc (length local)) s;
          label = rev (takeWhile (\<lambda>c. c \<noteq> CHR ''.'') (rev rest));
          domain = take (length rest - Suc (length label)) rest
      in length local < length s
         \<and> local \<noteq> []
         \<and> list_all (\<lambda>c. is_letter c \<or> is_digit c \<or> c \<in> set ''._%+-'') local
         \<and> length label < length rest
         \<and> domain \<noteq> []
         \<and> list_all (\<lambda>c. is_letter c \<or> is_digit c \<or> c \<in> set ''.-'') domain
         \<and> 2 \<le> length label
         \<and> list_all is_letter label)"

record CreateInvitationRequest =
  ci_SalespersonID :: "int option"
  ci_Email :: string
  ci_Phone :: string

text \<open>
  The failures of \<^verbatim>\<open>CreateAgentInvitation\<close>: status 404 for the unknown salesperson,
  409 for the pending invitation found, 500 for the failed insert, 400 for the others.
\<close>

datatype CreateInvitation_error =
  CI_InvalidSalespersonID
  | CI_NoContact
  | CI_BadEmail
  | CI_BadPhone
  | CI_SalespersonNotFound
  | CI_PendingExists
  | CI_CreateFailed

text \<open>
  The query for an invitation on record is built in up to three steps:
  \<^verbatim>\<open>Where("status = ?", "pending")\<close>, then \<^verbatim>\<open>Where("email = ?", ...)\<close> for a request
  with an e-mail, then \<^verbatim>\<open>Or("phone = ?", ...)\<close> for a request with a phone. The query
  builder joins the conditions in this order and without parentheses:
  \<^verbatim>\<open>status = ? AND email = ? OR phone = ?\<close>, and \<^verbatim>\<open>AND\<close> binds tighter than
  \<^verbatim>\<open>OR\<close>.
\<close>

definition existing_query :: "string \<Rightarrow> string \<Rightarrow> SalespersonAgentInvitation \<Rightarrow> bool" where
  "existing_query email phone =
     (let query = (\<lambda>i. inv_Status i = ''pending'');
          query = (if email \<noteq> [] then (\<lambda>i. query i \<and> inv_Email i = email) else query);
          query = (if phone \<noteq> [] then (\<lambda>i. query i \<or> inv_Phone i = phone) else query)
      in query)"

text \<open>
  \<^verbatim>\<open>time.Now().AddDate(0, 0, 7)\<close>: seven days of 24 hours (in a location whose clock
  is not shifted during these days).
\<close>

definition AddDate_7_days :: "time \<Rightarrow> time" where
  "AddDate_7_days t = t + 7 * 24 * 3600000000000"

text \<open>
  \<open>inviteCode\<close> is the code drawn by \<^verbatim>\<open>utils.GenerateInviteCode()\<close>. The column has a
  unique index, so the insert fails on a code that is in the table already.
\<close>

definition CreateAgentInvitation ::
  "string \<Rightarrow> 'f database \<Rightarrow> CreateInvitationRequest \<Rightarrow> time
   \<Rightarrow> (CreateInvitation_error + nat \<times> string) \<times> 'f database" where
  "CreateAgentInvitation inviteCode db request now =
     (case ci_SalespersonID request of
        None \<Rightarrow> (Inl CI_InvalidSalespersonID, db)
      | Some salespersonID \<Rightarrow>
      if ci_Email request = [] \<and> ci_Phone request = [] then (Inl CI_NoContact, db)
      else if ci_Email request \<noteq> [] \<and> \<not> emailRegex_match (ci_Email request)
      then (Inl CI_BadEmail, db)
      else if ci_Phone request \<noteq> [] \<and> \<not> phoneRegex_match (ci_Phone request)
      then (Inl CI_BadPhone, db)
      else
      case find (\<lambda>s. int (sp_ID s) = salespersonID) (tbl_salespersons db) of
        None \<Rightarrow> (Inl CI_SalespersonNotFound, db)
      | Some salesperson \<Rightarrow>
      case find (existing_query (ci_Email request) (ci_Phone request))
             (tbl_salesperson_agent_invitations db) of
        Some existingInvitation \<Rightarrow> (Inl CI_PendingExists, db)
      | None \<Rightarrow>
      let invitation =
            \<lparr>inv_ID = next_id (map inv_ID (tbl_salesperson_agent_invitations db)),
             inv_InviterID = nat salespersonID,
             inv_InviteeID = None,
             inv_InviteCode = inviteCode,
             inv_Email = ci_Email request,
             inv_Phone = ci_Phone request,
             inv_Status = ''pending'',
             inv_AcceptedAt = None,
             inv_ExpiredAt = AddDate_7_days now\<rparr>
      in
      if inviteCode \<in> set (map inv_InviteCode (tbl_salesperson_agent_invitations db))
      then (Inl CI_CreateFailed, db)
      else (Inr (inv_ID invitation, inviteCode),
            db\<lparr>tbl_salesperson_agent_invitations :=
                 tbl_salesperson_agent_invitations db @ [invitation]\<rparr>))"

section \<open>Commission cascade\<close>

text \<open>
  The failures of \<^verbatim>\<open>ProcessAgentCommission\<close>: the seller is not on record, or a
  \<^verbatim>\<open>parent_id\<close> on the way up names no salesperson. An insert, an update or the commit
  that the store fails would end the handler in the same way, with an error and the
  transaction rolled back; the model has the failed lookups only.
\<close>

datatype Commission_error = PAC_SalespersonNotFound | PAC_ParentNotFound nat

text \<open>
  The rate and the amount computed for the ancestor \<open>parent\<close> when the walk stands at
  level \<open>currentLevel\<close>.
\<close>

definition commissionRate :: "'f float64_ops \<Rightarrow> 64 word \<Rightarrow> 'f Salesperson \<Rightarrow> 'f" where
  "commissionRate F currentLevel parent =
     (if currentLevel - 1 = sp_Level parent then sp_ParentCommissionRate parent
      else
        let levelDiff = currentLevel - sp_Level parent - 1;
            divisor = f_Pow F (f_of_int F 2) (f_of_int F (sint levelDiff))
        in f_div F (sp_ParentCommissionRate parent) divisor)"

definition agentCommission ::
  "'f SalespersonSale \<Rightarrow> nat \<Rightarrow> 'f Salesperson \<Rightarrow> 'f \<Rightarrow> 'f \<Rightarrow> nat
   \<Rightarrow> 'f SalespersonAgentCommission" where
  "agentCommission sale currentSalespersonID parent rate amount new_id =
     \<lparr>ac_ID = new_id,
      ac_SaleID = sale_ID sale,
      ac_SalespersonID = currentSalespersonID,
      ac_AgentID = sp_ID parent,
      ac_AgentLevel = sp_Level parent,
      ac_OriginalAmount = sale_SaleAmount sale,
      ac_CommissionRate = rate,
      ac_CommissionAmount = amount,
      ac_Status = ''pending'',
      ac_SettlementID = None\<rparr>"

text \<open>
  The loop of the handler on its five variables: the transaction, the salesperson below
  the next ancestor, the id of the next ancestor, the level of the walk and the number of
  ancestors processed.
\<close>

function cascade ::
  "'f float64_ops \<Rightarrow> 'f SalespersonSale \<Rightarrow> 'f database \<Rightarrow> nat \<Rightarrow> nat option \<Rightarrow> 64 word \<Rightarrow> nat
   \<Rightarrow> Commission_error + 'f database" where
  "cascade F sale tx currentSalespersonID currentParentID currentLevel processedLevels =
     (case currentParentID of
        None \<Rightarrow> Inr tx
      | Some parentID \<Rightarrow>
        if \<not> processedLevels < unat MaxAgentLevel then Inr tx
        else
        case find (\<lambda>s. sp_ID s = parentID) (tbl_salespersons tx) of
          None \<Rightarrow> Inl (PAC_ParentNotFound parentID)
        | Some parent \<Rightarrow>
          let rate = commissionRate F currentLevel parent;
              commissionAmount = f_mul F (sale_SaleAmount sale) rate
          in
          if f_less F commissionAmount (f_0_01 F) then Inr tx
          else
            let row = agentCommission sale currentSalespersonID parent rate commissionAmount
                        (next_id (map ac_ID (tbl_salesperson_agent_commissions tx)));
                tx = tx\<lparr>tbl_salesperson_agent_commissions :=
                           tbl_salesperson_agent_commissions tx @ [row],
                         tbl_salespersons :=
                           update_where (\<lambda>s. sp_ID s = sp_ID parent)
                             (\<lambda>s. s\<lparr>sp_TotalCommission :=
                                      f_add F (sp_TotalCommission s) commissionAmount\<rparr>)
                             (tbl_salespersons tx)\<rparr>
            in cascade F sale tx (sp_ID parent) (sp_ParentID parent) (sp_Level parent)
                 (processedLevels + 1))"
  by pat_completeness auto
termination
  by (relation "measure (\<lambda>(F, sale, tx, cur, par, lvl, processed). unat MaxAgentLevel - processed)")
    auto

text \<open>
  The handler: nothing to do for a seller without a parent; otherwise the loop runs in a
  transaction, committed at the end and rolled back on an error.
\<close>

definition ProcessAgentCommission ::
  "'f float64_ops \<Rightarrow> 'f SalespersonSale \<Rightarrow> 'f database
   \<Rightarrow> (Commission_error + unit) \<times> 'f database" where
  "ProcessAgentCommission F sale db =
     (case find (\<lambda>s. sp_ID s = sale_SalespersonID sale) (tbl_salespersons db) of
        None \<Rightarrow> (Inl PAC_SalespersonNotFound, db)
      | Some salesperson \<Rightarrow>
        if sp_ParentID salesperson = None then (Inr (), db)
        else
          case cascade F sale db (sale_SalespersonID sale) (sp_ParentID salesperson)
                 (sp_Level salesperson) 0 of
            Inl e \<Rightarrow> (Inl e, db)
          | Inr tx \<Rightarrow> (Inr (), tx))"

definition example_sp :: "nat \<Rightarrow> string \<Rightarrow> nat option \<Rightarrow> 64 word \<Rightarrow> 64 word \<Rightarrow> real Salesperson" where
  "example_sp n name parent level children =
     \<lparr>sp_ID = n, sp_Name = name, sp_TotalSales = 0, sp_TotalCommission = 0,
      sp_ParentID = parent, sp_Level = level, sp_ChildrenCount = children,
      sp_ParentCommissionRate = 1 / 10\<rparr>"

definition example_inv :: "nat \<Rightarrow> nat \<Rightarrow> string \<Rightarrow> time \<Rightarrow> SalespersonAgentInvitation" where
  "example_inv n inviter code expiry =
     \<lparr>inv_ID = n, inv_InviterID = inviter, inv_InviteeID = None, inv_InviteCode = code,
      inv_Email = ''new@example.com'', inv_Phone = [], inv_Status = ''pending'',
      inv_AcceptedAt = None, inv_ExpiredAt = expiry\<rparr>"

text \<open>The chain A (id 1), B (id 2, below A), C (id 3, below B); B and C each invite.\<close>

definition db1 :: "real database" where
  "db1 = empty_db
     \<lparr>tbl_salespersons := [example_sp 1 ''A'' None 0 1,
                            example_sp 2 ''B'' (Some 1) 1 1,
                            example_sp 3 ''C'' (Some 2) 2 0],
      tbl_salesperson_agent_invitations := [example_inv 1 2 ''INVB'' 1000,
                                            example_inv 2 3 ''INVC'' 1000]\<rparr>"

text \<open>
  A store that fails no children query, and one that fails the query for the children
  of A.
\<close>

definition no_failure :: "nat \<Rightarrow> bool" where
  "no_failure c = False"

definition fails_for_A :: "nat \<Rightarrow> bool" where
  "fails_for_A c = (c = 1)"

definition accept_INVB_by_A :: AcceptRequest where
  "accept_INVB_by_A = \<lparr>acc_InviteCode = ''INVB'', acc_SalespersonID = Some 1\<rparr>"

definition accept_INVC_by_A :: AcceptRequest where
  "accept_INVC_by_A = \<lparr>acc_InviteCode = ''INVC'', acc_SalespersonID = Some 1\<rparr>"

text \<open>The chain once A is below B as well: A and B are each other's parent.\<close>

definition db1_cycle :: "real database" where
  "db1_cycle = empty_db
     \<lparr>tbl_salespersons := [example_sp 1 ''A'' (Some 2) 2 1,
                            example_sp 2 ''B'' (Some 1) 1 2,
                            example_sp 3 ''C'' (Some 2) 2 0],
      tbl_salesperson_agent_invitations :=
        [(example_inv 1 2 ''INVB'' 1000)
           \<lparr>inv_Status := ''accepted'', inv_InviteeID := Some 1, inv_AcceptedAt := Some 101\<rparr>,
         example_inv 2 3 ''INVC'' 1000]\<rparr>"

text \<open>
  X (id 1) at level 0 and Z (id 3) at the maximal level have each invited; Y (id 2) has
  no parent yet.
\<close>

definition db5 :: "real database" where
  "db5 = empty_db
     \<lparr>tbl_salespersons := [example_sp 1 ''X'' None 0 0,
                            example_sp 2 ''Y'' None 0 0,
                            example_sp 3 ''Z'' (Some 9) 5 0],
      tbl_salesperson_agent_invitations := [example_inv 1 1 ''INVX'' 1000,
                                            example_inv 2 3 ''INVZ'' 1000]\<rparr>"

definition accept_INVX_by_Y :: AcceptRequest where
  "accept_INVX_by_Y = \<lparr>acc_InviteCode = ''INVX'', acc_SalespersonID = Some 2\<rparr>"

definition accept_INVZ_by_Y :: AcceptRequest where
  "accept_INVZ_by_Y = \<lparr>acc_InviteCode = ''INVZ'', acc_SalespersonID = Some 2\<rparr>"

definition accept_INVX_by_X :: AcceptRequest where
  "accept_INVX_by_X = \<lparr>acc_InviteCode = ''INVX'', acc_SalespersonID = Some 1\<rparr>"

text \<open>
  Salesperson 1 has one invitation pending, sent to an e-mail address, and one accepted
  long ago, sent to a phone number.
\<close>

definition db8 :: "real database" where
  "db8 = empty_db
     \<lparr>tbl_salespersons := [example_sp 1 ''X'' None 0 0],
      tbl_salesperson_agent_invitations :=
        [example_inv 1 1 ''INV00001'' 1000,
         (example_inv 2 1 ''INV00002'' 500)
           \<lparr>inv_Email := [], inv_Phone := ''13900139000'', inv_Status := ''accepted''\<rparr>]\<rparr>"

definition invite_by_phone :: CreateInvitationRequest where
  "invite_by_phone =
     \<lparr>ci_SalespersonID = Some 1, ci_Email = [], ci_Phone = ''13800138000''\<rparr>"

definition invite_again :: CreateInvitationRequest where
  "invite_again =
     \<lparr>ci_SalespersonID = Some 1, ci_Email = ''friend@example.com'', ci_Phone = ''13900139000''\<rparr>"

text \<open>A pending invitation on record for the contact of a request.\<close>

definition pending_for_contact ::
  "'f database \<Rightarrow> CreateInvitationRequest \<Rightarrow> bool" where
  "pending_for_contact db request =
     list_ex (\<lambda>i. inv_Status i = ''pending''
                  \<and> ((ci_Email request \<noteq> [] \<and> inv_Email i = ci_Email request)
                      \<or> (ci_Phone request \<noteq> [] \<and> inv_Phone i = ci_Phone request)))
       (tbl_salesperson_agent_invitations db)"

declare cascade.simps [simp del]

subsection \<open>The cascade as the specification words it\<close>

text \<open>
  The upline of a salesperson: the ancestors met by following \<^verbatim>\<open>parent_id\<close> for at
  most \<open>n\<close> hops, nearest first.
\<close>

fun upline :: "'f database \<Rightarrow> nat \<Rightarrow> nat option \<Rightarrow> 'f Salesperson list" where
  "upline db 0 parentID = []"
| "upline db (Suc n) None = []"
| "upline db (Suc n) (Some parentID) =
     (case find (\<lambda>s. sp_ID s = parentID) (tbl_salespersons db) of
        None \<Rightarrow> []
      | Some A \<Rightarrow> A # upline db n (sp_ParentID A))"

text \<open>
  The rate applied at an ancestor \<open>A\<close>: its \<open>parentCommissionRate\<close> when the current level
  of the walk is \<open>A.level + 1\<close>, and otherwise that rate divided by 2 to the power
  \<open>currentLevel - A.level - 1\<close>.
\<close>

definition spec_rate :: "'f float64_ops \<Rightarrow> 64 word \<Rightarrow> 'f Salesperson \<Rightarrow> 'f" where
  "spec_rate F currentLevel A =
     (if currentLevel = sp_Level A + 1 then sp_ParentCommissionRate A
      else f_div F (sp_ParentCommissionRate A)
             (f_Pow F (f_of_int F 2) (f_of_int F (sint (currentLevel - sp_Level A - 1)))))"

text \<open>
  The commission rows owed for a sale along a list of ancestors, nearest first: the amount
  is the sale amount times the rate; the first amount below 0.01 ends the cascade; every
  ancestor before that gets one pending row. \<open>below\<close> is the salesperson one hop below
  the ancestor and \<open>currentLevel\<close> the level of the walk. The store numbers the rows; here
  their id is 0.
\<close>

fun spec_cascade ::
  "'f float64_ops \<Rightarrow> 'f SalespersonSale \<Rightarrow> nat \<Rightarrow> 64 word \<Rightarrow> 'f Salesperson list
   \<Rightarrow> 'f SalespersonAgentCommission list" where
  "spec_cascade F sale below currentLevel [] = []"
| "spec_cascade F sale below currentLevel (A # ancestors) =
     (let rate = spec_rate F currentLevel A;
          amount = f_mul F (sale_SaleAmount sale) rate
      in if f_less F amount (f_0_01 F) then []
         else \<lparr>ac_ID = 0,
               ac_SaleID = sale_ID sale,
               ac_SalespersonID = below,
               ac_AgentID = sp_ID A,
               ac_AgentLevel = sp_Level A,
               ac_OriginalAmount = sale_SaleAmount sale,
               ac_CommissionRate = rate,
               ac_CommissionAmount = amount,
               ac_Status = ''pending'',
               ac_SettlementID = None\<rparr>
              # spec_cascade F sale (sp_ID A) (sp_Level A) ancestors)"

text \<open>
  What the cascade reads of a salesperson: the id, the parent, the level and the rate. The
  cascade writes the total commission only.
\<close>

definition hierarchy_of :: "'f Salesperson \<Rightarrow> nat \<times> nat option \<times> 64 word \<times> 'f" where
  "hierarchy_of s = (sp_ID s, sp_ParentID s, sp_Level s, sp_ParentCommissionRate s)"

subsection \<open>Example sales\<close>

definition example_sale :: "nat \<Rightarrow> real \<Rightarrow> real SalespersonSale" where
  "example_sale seller amount =
     \<lparr>sale_ID = 7, sale_SalespersonID = seller, sale_KeyID = 1, sale_SoftwareID = 1,
      sale_KeyTypeID = 1, sale_SaleAmount = amount, sale_CommissionRate = 0,
      sale_Commission = 0, sale_Status = ''completed''\<rparr>"

text \<open>
  The chain R (id 1), T (id 2), U (id 3), V (id 4), W (id 5), each below the one before.
  T passes on one percent only, and the level of V is 4 where the chain would give 3.
  W sells for 0.3.
\<close>

definition db2 :: "real database" where
  "db2 = empty_db
     \<lparr>tbl_salespersons := [example_sp 1 ''R'' None 0 1,
                            (example_sp 2 ''T'' (Some 1) 1 1)\<lparr>sp_ParentCommissionRate := 1 / 100\<rparr>,
                            example_sp 3 ''U'' (Some 2) 2 1,
                            example_sp 4 ''V'' (Some 3) 4 1,
                            example_sp 5 ''W'' (Some 4) 5 0]\<rparr>"

definition sale_by_W :: "real SalespersonSale" where
  "sale_by_W = example_sale 5 (3 / 10)"

text \<open>A row of the commission table, with the id 0.\<close>

definition example_commission ::
  "nat \<Rightarrow> nat \<Rightarrow> 64 word \<Rightarrow> real \<Rightarrow> real \<Rightarrow> real \<Rightarrow> real SalespersonAgentCommission" where
  "example_commission below agent level original rate amount =
     \<lparr>ac_ID = 0, ac_SaleID = 7, ac_SalespersonID = below, ac_AgentID = agent,
      ac_AgentLevel = level, ac_OriginalAmount = original, ac_CommissionRate = rate,
      ac_CommissionAmount = amount, ac_Status = ''pending'', ac_SettlementID = None\<rparr>"

text \<open>In the chain A, B, C the salesperson C sells for 100, and so does A.\<close>

definition sale_by_C :: "real SalespersonSale" where
  "sale_by_C = example_sale 3 100"

definition sale_by_A :: "real SalespersonSale" where
  "sale_by_A = example_sale 1 100"

chapter \<open>Properties\<close>

section \<open>Properties of the login rate limiter\<close>









section \<open>Helper facts about tables\<close>

lemma length_update_where: "length (update_where P f rows) = length rows"
  by (simp add: update_where_def)

lemma nth_update_where:
  "i < length rows \<Longrightarrow> update_where P f rows ! i = (if P (rows ! i) then f (rows ! i) else rows ! i)"
  by (simp add: update_where_def)

lemma find_SomeD: "find P xs = Some x \<Longrightarrow> x \<in> set xs \<and> P x"
  by (auto simp: find_Some_iff)

lemma distinct_map_same:
  "distinct (map f xs) \<Longrightarrow> x \<in> set xs \<Longrightarrow> y \<in> set xs \<Longrightarrow> f x = f y \<Longrightarrow> x = y"
  by (meson distinct_map inj_on_eq_iff)

lemma map_id_update_where:
  "(\<And>r. P r \<Longrightarrow> g (f r) = g r) \<Longrightarrow> map g (update_where P f rows) = map g rows"
  by (induction rows) (auto simp: update_where_def)

lemma find_update_where:
  "find P rows = Some x \<Longrightarrow> (\<And>r. P (f r) = P r) \<Longrightarrow>
   find P (update_where Q f rows) = Some (if Q x then f x else x)"
  by (induction rows) (auto simp: update_where_def split: if_splits)

section \<open>Properties of the key store\<close>

lemma ActivateKey_keeps_void_row:
  assumes "distinct (map k_ID (tbl_keys db))" and "i < length (tbl_keys db)"
    and "k_Status (tbl_keys db ! i) = ''void''"
  shows "tbl_keys (snd (ActivateKey db req now)) ! i = tbl_keys db ! i"
proof -
  have "k_ID (tbl_keys db ! i) \<noteq> k_ID key"
    if "find (\<lambda>k. k_Code k = act_Code req \<and> k_KeyCode k = act_KeyCode req) (tbl_keys db) = Some key"
      and "k_Status key = ''unused''" for key
  proof
    assume "k_ID (tbl_keys db ! i) = k_ID key"
    moreover have "key \<in> set (tbl_keys db)" using that(1) by (simp add: find_SomeD)
    moreover have "tbl_keys db ! i \<in> set (tbl_keys db)" using assms(2) by simp
    ultimately have "tbl_keys db ! i = key"
      using assms(1) distinct_map_same by metis
    then show False using assms(3) that(2) by simp
  qed
  then show ?thesis
    using assms(2)
    by (auto simp: ActivateKey_def Let_def nth_update_where split: option.splits)
qed

lemma map_k_ID_Save:
  "map k_ID (update_where (\<lambda>k. k_ID k = n) f rows) = map k_ID rows"
  if "\<And>r. k_ID (f r) = n"
  by (rule map_id_update_where) (simp add: that)

lemma ActivateKey_ids:
  "map k_ID (tbl_keys (snd (ActivateKey db req now))) = map k_ID (tbl_keys db)"
  by (auto simp: ActivateKey_def Let_def map_k_ID_Save split: option.splits)

lemma VoidKey_keeps_void_row:
  assumes "i < length (tbl_keys db)" and "k_Status (tbl_keys db ! i) = ''void''"
  shows "tbl_keys (snd (VoidKey db param)) ! i = tbl_keys db ! i"
  using assms
  by (auto simp: VoidKey_def nth_update_where split: option.splits)

lemma VoidKey_ids:
  "map k_ID (tbl_keys (snd (VoidKey db param))) = map k_ID (tbl_keys db)"
  by (auto simp: VoidKey_def Let_def map_id_update_where [where g = k_ID] split: option.splits)

lemma apply_key_op_ids:
  "map k_ID (tbl_keys (apply_key_op db op)) = map k_ID (tbl_keys db)"
  by (cases op) (simp_all add: ActivateKey_ids VoidKey_ids)

lemma apply_key_op_keeps_void_row:
  assumes "distinct (map k_ID (tbl_keys db))" and "i < length (tbl_keys db)"
    and "k_Status (tbl_keys db ! i) = ''void''"
  shows "tbl_keys (apply_key_op db op) ! i = tbl_keys db ! i"
  using assms by (cases op) (simp_all add: ActivateKey_keeps_void_row VoidKey_keeps_void_row)

lemma run_key_ops_keeps_void_row:
  assumes "distinct (map k_ID (tbl_keys db))" and "i < length (tbl_keys db)"
    and "k_Status (tbl_keys db ! i) = ''void''"
  shows "tbl_keys (run_key_ops db ops) ! i = tbl_keys db ! i"
  using assms
proof (induction ops arbitrary: db)
  case Nil
  show ?case by (simp add: run_key_ops_def)
next
  case (Cons op ops)
  let ?db = "apply_key_op db op"
  have ids: "map k_ID (tbl_keys ?db) = map k_ID (tbl_keys db)"
    by (rule apply_key_op_ids)
  have row: "tbl_keys ?db ! i = tbl_keys db ! i"
    using Cons.prems by (rule apply_key_op_keeps_void_row)
  have len: "length (tbl_keys ?db) = length (tbl_keys db)"
    using ids by (metis length_map)
  have "tbl_keys (run_key_ops ?db ops) ! i = tbl_keys ?db ! i"
    using Cons.prems by (intro Cons.IH) (simp_all add: ids row len)
  then show ?case by (simp add: run_key_ops_def row)
qed

lemma VoidKey_fails_iff:
  assumes "find (\<lambda>k. int (k_ID k) = n) (tbl_keys db) = Some key" and "0 < n"
  shows "(\<exists>e. fst (VoidKey db (Some n)) = Inl e) = (k_Status key = ''void'')"
  using assms by (simp add: VoidKey_def)

lemma VoidKey_sets_void:
  assumes "find (\<lambda>k. int (k_ID k) = n) (tbl_keys db) = Some key" and "0 < n"
    and "k_Status key \<noteq> ''void''"
  shows "fst (VoidKey db (Some n)) = Inr (key\<lparr>k_Status := ''void''\<rparr>)
     \<and> find (\<lambda>k. int (k_ID k) = n) (tbl_keys (snd (VoidKey db (Some n))))
         = Some (key\<lparr>k_Status := ''void''\<rparr>)"
proof -
  have "int (k_ID key) = n" using find_SomeD [OF assms(1)] by simp
  then show ?thesis
    using assms find_update_where [OF assms(1), of "\<lambda>k. k\<lparr>k_Status := ''void''\<rparr>" "\<lambda>k. k_ID k = k_ID key"]
    by (simp add: VoidKey_def)
qed

text \<open>
  Claim C6. For a key that the id selects, \<open>VoidKey\<close> fails exactly when the status of
  the key is \<open>void\<close> already; from any other status (\<open>used\<close> included) it answers
  with the key voided and the stored key has status \<open>void\<close>. In a table with distinct
  ids, a row whose status is \<open>void\<close> is the same row, with status \<open>void\<close>, after any
  sequence of activations and voidings.
\<close>

theorem void_key_terminal:
  "(find (\<lambda>k. int (k_ID k) = n) (tbl_keys db) = Some key \<and> 0 < n \<longrightarrow>
      ((\<exists>e. fst (VoidKey db (Some n)) = Inl e) = (k_Status key = ''void''))
      \<and> (k_Status key \<noteq> ''void'' \<longrightarrow>
           fst (VoidKey db (Some n)) = Inr (key\<lparr>k_Status := ''void''\<rparr>)
           \<and> find (\<lambda>k. int (k_ID k) = n) (tbl_keys (snd (VoidKey db (Some n))))
               = Some (key\<lparr>k_Status := ''void''\<rparr>)))
   \<and> (distinct (map k_ID (tbl_keys db)) \<and> i < length (tbl_keys db)
        \<and> k_Status (tbl_keys db ! i) = ''void'' \<longrightarrow>
        tbl_keys (run_key_ops db ops) ! i = tbl_keys db ! i
        \<and> k_Status (tbl_keys (run_key_ops db ops) ! i) = ''void'')"
  using VoidKey_fails_iff [of n db key] VoidKey_sets_void [of n db key]
    run_key_ops_keeps_void_row [of db i ops]
  by simp

lemma db6_find_1: "find (\<lambda>k. int (k_ID k) = 1) (tbl_keys db6) = Some (example_key 1 ''AAAA'' ''K1'' 720 ''used'')"
  by (simp add: db6_def empty_db_def example_key_def)

lemma db6_row_1: "distinct (map k_ID (tbl_keys db6)) \<and> 1 < length (tbl_keys db6) \<and> k_Status (tbl_keys db6 ! 1) = ''void''"
  by (simp add: db6_def empty_db_def example_key_def)

theorem void_key_terminal_witness:
  "fst (VoidKey db6 (Some 1)) = Inr (example_key 1 ''AAAA'' ''K1'' 720 ''void'')
   \<and> find (\<lambda>k. int (k_ID k) = 1) (tbl_keys (snd (VoidKey db6 (Some 1))))
       = Some (example_key 1 ''AAAA'' ''K1'' 720 ''void'')
   \<and> k_Status (tbl_keys (run_key_ops db6
        [Op_Void (Some 2),
         Op_Activate \<lparr>act_Code = ''BBBB'', act_KeyCode = ''K2'', act_SoftwareID = 1,
                      act_DeviceInfo = ''pc'', act_ActivatorID = 7\<rparr> 50]) ! 1) = ''void''"
  using void_key_terminal [of 1 db6 "example_key 1 ''AAAA'' ''K1'' 720 ''used''" 1
      "[Op_Void (Some 2),
         Op_Activate \<lparr>act_Code = ''BBBB'', act_KeyCode = ''K2'', act_SoftwareID = 1,
                      act_DeviceInfo = ''pc'', act_ActivatorID = 7\<rparr> 50]"] db6_find_1 db6_row_1
  by (simp add: example_key_def)

lemma find_update_where_const:
  "find P rows = Some x \<Longrightarrow> Q x \<Longrightarrow> P k \<Longrightarrow> find P (update_where Q (\<lambda>_. k) rows) = Some k"
  by (induction rows) (auto simp: update_where_def split: if_splits)

text \<open>
  What a successful activation stores, and what the same request does next: it finds the
  key with status \<open>used\<close> and fails without writing.
\<close>

lemma ActivateKey_success:
  assumes "act_Code req \<noteq> []" and "act_KeyCode req \<noteq> []" and "act_SoftwareID req \<noteq> 0"
    and "find (\<lambda>k. k_Code k = act_Code req \<and> k_KeyCode k = act_KeyCode req) (tbl_keys db)
           = Some key"
    and "k_Status key = ''unused''" and "k_SoftwareID key = act_SoftwareID req"
    and "find (\<lambda>s. sw_ID s = act_SoftwareID req) (tbl_softwares db) = Some software"
    and "sw_Status software = ''active''" and "sw_IsActive software"
  shows "ActivateKey db req now =
    (Inr (key\<lparr>k_Status := ''used'', k_UsedAt := Some now, k_ActivatedAt := Some now,
              k_ExpiredAt := Some (now + sint (k_Hours key * time_Hour)),
              k_DeviceInfo := act_DeviceInfo req, k_UserID := Some (act_ActivatorID req)\<rparr>,
          sw_Name software),
     db\<lparr>tbl_keys := update_where (\<lambda>k. k_ID k = k_ID key)
          (\<lambda>_. key\<lparr>k_Status := ''used'', k_UsedAt := Some now, k_ActivatedAt := Some now,
              k_ExpiredAt := Some (now + sint (k_Hours key * time_Hour)),
              k_DeviceInfo := act_DeviceInfo req, k_UserID := Some (act_ActivatorID req)\<rparr>)
          (tbl_keys db)\<rparr>)"
  using assms by (simp add: ActivateKey_def time_Add_def Let_def)

lemma ActivateKey_again:
  assumes "act_Code req \<noteq> []" and "act_KeyCode req \<noteq> []" and "act_SoftwareID req \<noteq> 0"
    and "find (\<lambda>k. k_Code k = act_Code req \<and> k_KeyCode k = act_KeyCode req) (tbl_keys db)
           = Some key"
    and "k_Status key = ''unused''" and "k_SoftwareID key = act_SoftwareID req"
    and "find (\<lambda>s. sw_ID s = act_SoftwareID req) (tbl_softwares db) = Some software"
    and "sw_Status software = ''active''" and "sw_IsActive software"
  shows "ActivateKey (snd (ActivateKey db req now)) req now' =
           (Inl (Act_InvalidStatus ''used''), snd (ActivateKey db req now))"
proof -
  let ?key = "key\<lparr>k_Status := ''used'', k_UsedAt := Some now, k_ActivatedAt := Some now,
              k_ExpiredAt := Some (now + sint (k_Hours key * time_Hour)),
              k_DeviceInfo := act_DeviceInfo req, k_UserID := Some (act_ActivatorID req)\<rparr>"
  have codes: "k_Code key = act_Code req \<and> k_KeyCode key = act_KeyCode req"
    using find_SomeD [OF assms(4)] by simp
  have "find (\<lambda>k. k_Code k = act_Code req \<and> k_KeyCode k = act_KeyCode req)
          (update_where (\<lambda>k. k_ID k = k_ID key) (\<lambda>_. ?key) (tbl_keys db)) = Some ?key"
    using assms(4) by (rule find_update_where_const) (simp_all add: codes)
  then show ?thesis
    using assms(1-3) by (simp add: ActivateKey_success [OF assms] ActivateKey_def [of _ req now'])
qed

text \<open>
  The expiry is \<open>H\<close> hours after the activation as long as \<open>H\<close> hours, counted in
  nanoseconds, fit a \<^verbatim>\<open>time.Duration\<close>.
\<close>

lemma hours_duration_exact:
  assumes "- 2562047 \<le> sint (h :: 64 word)" and "sint h \<le> 2562047"
  shows "sint (h * time_Hour) = sint h * 3600000000000"
proof -
  have "sint (h * time_Hour) = signed_take_bit 63 (sint h * 3600000000000)"
    by (simp add: sint_word_ariths time_Hour_def)
  also have "\<dots> = sint h * 3600000000000"
    using assms by (intro signed_take_bit_int_eq_self) simp_all
  finally show ?thesis .
qed

text \<open>
  Claim C4, at a key whose validity is 2562048 hours: the product of the hours and
  \<^verbatim>\<open>time.Hour\<close> exceeds the largest \<^verbatim>\<open>time.Duration\<close> and wraps around, so the
  activation succeeds and stores an expiry about 292 years before the activation time
  instead of 2562048 hours after it.
\<close>

theorem ActivateKey_hours_overflow:
  "sint (k_Hours (example_key 1 ''AAAA'' ''K1'' 2562048 ''unused'')) = 2562048
   \<and> fst (ActivateKey db4 req4 63800000000000000000) =
       Inr ((example_key 1 ''AAAA'' ''K1'' 2562048 ''unused'')
              \<lparr>k_Status := ''used'', k_UsedAt := Some 63800000000000000000,
               k_ActivatedAt := Some 63800000000000000000,
               k_ExpiredAt := Some (63800000000000000000 - 9223371273709551616),
               k_DeviceInfo := ''pc'', k_UserID := Some 7\<rparr>, ''editor'')
   \<and> 63800000000000000000 - 9223371273709551616
       \<noteq> (63800000000000000000 + 2562048 * 3600000000000 :: int)"
  by (simp add: ActivateKey_def db4_def req4_def empty_db_def example_key_def
      example_software_def time_Add_def time_Hour_def Let_def)

theorem ActivateKey_hours_overflow_witness:
  "\<exists>key. fst (ActivateKey db4 req4 63800000000000000000) = Inr (key, ''editor'')
     \<and> k_Status key = ''used''
     \<and> k_ExpiredAt key = Some 54576628726290448384
     \<and> 54576628726290448384 < (63800000000000000000 :: int)"
  using ActivateKey_hours_overflow by simp

section \<open>Properties of the bulk mint\<close>

lemma length_make_keys:
  "length (make_keys gen req creatorType keyType software) = nat (sint (bc_Count req))"
  by (simp add: make_keys_def)

lemma make_keys_fields:
  assumes "k \<in> set (make_keys gen req creatorType keyType software)"
  shows "k_Status k = ''unused'' \<and> k_TypeName k = kt_Name keyType
     \<and> k_Hours k = kt_Hours keyType \<and> k_Price k = kt_Price keyType"
  using assms by (auto simp: make_keys_def)

lemma length_assign_ids: "length (assign_ids start ks) = length ks"
  by (simp add: assign_ids_def)

lemma assign_ids_fields:
  assumes "k' \<in> set (assign_ids start ks)"
  shows "\<exists>k \<in> set ks. k_Status k' = k_Status k \<and> k_TypeName k' = k_TypeName k
     \<and> k_Hours k' = k_Hours k \<and> k_Price k' = k_Price k"
proof -
  from assms obtain i k where "(i, k) \<in> set (enumerate 0 ks)" and k': "k' = k\<lparr>k_ID := start + i\<rparr>"
    by (auto simp: assign_ids_def)
  then have "k \<in> set ks" by (auto simp: in_set_enumerate_eq)
  with k' show ?thesis by auto
qed

lemma minted_keys_fields:
  assumes "k \<in> set (assign_ids start (make_keys gen req creatorType keyType software))"
  shows "k_Status k = ''unused'' \<and> k_TypeName k = kt_Name keyType
     \<and> k_Hours k = kt_Hours keyType \<and> k_Price k = kt_Price keyType"
  using assign_ids_fields [OF assms] make_keys_fields by metis

lemma record_sale_keys: "tbl_keys (record_sale F req keyType tx) = tbl_keys tx"
  by (simp add: record_sale_def Let_def split: option.splits)

lemma BatchCreateKeys_count:
  "sint (bc_Count req) \<le> 0 \<or> 1000 < sint (bc_Count req) \<Longrightarrow>
   BatchCreateKeys F gen db req = (Inl BC_CountOutOfRange, db)"
  by (auto simp: BatchCreateKeys_def)

lemma BatchCreateKeys_success:
  assumes "BatchCreateKeys F gen db req = (Inr keys, db')"
  shows "1 \<le> sint (bc_Count req) \<and> sint (bc_Count req) \<le> 1000
    \<and> (\<exists>keyType software binding creatorType.
         find (\<lambda>t. kt_ID t = bc_TypeID req) (tbl_key_types db) = Some keyType
         \<and> kt_Status keyType = ''active'' \<and> kt_IsActive keyType
         \<and> find (\<lambda>s. sw_ID s = bc_SoftwareID req) (tbl_softwares db) = Some software
         \<and> sw_Status software = ''active'' \<and> sw_IsActive software
         \<and> find (\<lambda>b. skt_SoftwareID b = bc_SoftwareID req \<and> skt_KeyTypeID b = bc_TypeID req)
               (tbl_software_key_types db) = Some binding
         \<and> keys = assign_ids (next_id (map k_ID (tbl_keys db)))
                    (make_keys gen req creatorType keyType software)
         \<and> tbl_keys db' = tbl_keys db @ keys)"
  using assms
  by (simp add: BatchCreateKeys_def Let_def split: if_splits option.splits)
    (auto simp: record_sale_keys)

text \<open>
  Claim C7. A count below 1 or above 1000 is rejected and nothing is written. When the
  mint succeeds, the count is between 1 and 1000, the key type of the request exists and
  is active, the software exists and is active, a binding of the two exists, and the
  answer holds exactly count keys, appended to the table, each with status \<open>unused\<close>
  and with the name, the hours and the price of the key type.
\<close>

theorem BatchCreateKeys_mint:
  "(sint (bc_Count req) \<le> 0 \<or> 1000 < sint (bc_Count req) \<longrightarrow>
      BatchCreateKeys F gen db req = (Inl BC_CountOutOfRange, db))
   \<and> (BatchCreateKeys F gen db req = (Inr keys, db') \<longrightarrow>
        1 \<le> sint (bc_Count req) \<and> sint (bc_Count req) \<le> 1000
        \<and> (\<exists>keyType software binding.
              find (\<lambda>t. kt_ID t = bc_TypeID req) (tbl_key_types db) = Some keyType
              \<and> kt_Status keyType = ''active'' \<and> kt_IsActive keyType
              \<and> find (\<lambda>s. sw_ID s = bc_SoftwareID req) (tbl_softwares db) = Some software
              \<and> sw_Status software = ''active'' \<and> sw_IsActive software
              \<and> find (\<lambda>b. skt_SoftwareID b = bc_SoftwareID req
                            \<and> skt_KeyTypeID b = bc_TypeID req)
                    (tbl_software_key_types db) = Some binding
              \<and> (\<forall>k \<in> set keys. k_Status k = ''unused''
                     \<and> k_TypeName k = kt_Name keyType
                     \<and> k_Hours k = kt_Hours keyType
                     \<and> k_Price k = kt_Price keyType))
        \<and> length keys = nat (sint (bc_Count req))
        \<and> tbl_keys db' = tbl_keys db @ keys)"
proof (intro conjI impI)
  assume "sint (bc_Count req) \<le> 0 \<or> 1000 < sint (bc_Count req)"
  then show "BatchCreateKeys F gen db req = (Inl BC_CountOutOfRange, db)"
    by (rule BatchCreateKeys_count)
next
  assume ok: "BatchCreateKeys F gen db req = (Inr keys, db')"
  from BatchCreateKeys_success [OF ok]
  obtain keyType software binding creatorType where
    range: "1 \<le> sint (bc_Count req)" "sint (bc_Count req) \<le> 1000"
    and found: "find (\<lambda>t. kt_ID t = bc_TypeID req) (tbl_key_types db) = Some keyType"
      "kt_Status keyType = ''active''" "kt_IsActive keyType"
      "find (\<lambda>s. sw_ID s = bc_SoftwareID req) (tbl_softwares db) = Some software"
      "sw_Status software = ''active''" "sw_IsActive software"
      "find (\<lambda>b. skt_SoftwareID b = bc_SoftwareID req \<and> skt_KeyTypeID b = bc_TypeID req)
          (tbl_software_key_types db) = Some binding"
    and keys: "keys = assign_ids (next_id (map k_ID (tbl_keys db)))
                 (make_keys gen req creatorType keyType software)"
    and stored: "tbl_keys db' = tbl_keys db @ keys"
    by blast
  show "1 \<le> sint (bc_Count req)" and "sint (bc_Count req) \<le> 1000"
    by (rule range)+
  show "tbl_keys db' = tbl_keys db @ keys" by (rule stored)
  show "length keys = nat (sint (bc_Count req))"
    by (simp add: keys length_assign_ids length_make_keys)
  have "\<forall>k \<in> set keys. k_Status k = ''unused'' \<and> k_TypeName k = kt_Name keyType
      \<and> k_Hours k = kt_Hours keyType \<and> k_Price k = kt_Price keyType"
    unfolding keys using minted_keys_fields by blast
  with found
  show "\<exists>keyType software binding.
      find (\<lambda>t. kt_ID t = bc_TypeID req) (tbl_key_types db) = Some keyType
      \<and> kt_Status keyType = ''active'' \<and> kt_IsActive keyType
      \<and> find (\<lambda>s. sw_ID s = bc_SoftwareID req) (tbl_softwares db) = Some software
      \<and> sw_Status software = ''active'' \<and> sw_IsActive software
      \<and> find (\<lambda>b. skt_SoftwareID b = bc_SoftwareID req \<and> skt_KeyTypeID b = bc_TypeID req)
            (tbl_software_key_types db) = Some binding
      \<and> (\<forall>k \<in> set keys. k_Status k = ''unused''
             \<and> k_TypeName k = kt_Name keyType
             \<and> k_Hours k = kt_Hours keyType
             \<and> k_Price k = kt_Price keyType)"
    by blast
qed

lemma example_gen_codes:
  "map (\<lambda>i. fst (example_gen i)) [0 ..< 5] = [''C'', ''CC'', ''CCC'', ''CCCC'', ''CCCCC'']"
  "map (\<lambda>i. snd (example_gen i)) [0 ..< 5] = [''K'', ''KK'', ''KKK'', ''KKKK'', ''KKKKK'']"
  by (simp_all add: example_gen_def upt_rec)

lemma map_enumerate_ids:
  "(\<And>k i. g (k\<lparr>k_ID := i\<rparr>) = g k) \<Longrightarrow>
   map (\<lambda>p. g (snd p\<lparr>k_ID := start + fst p\<rparr>)) (enumerate n ks) = map g ks"
  by (induction ks arbitrary: n) simp_all

lemma map_k_Code_assign_ids: "map k_Code (assign_ids start ks) = map k_Code ks"
  using map_enumerate_ids [of k_Code start 0 ks]
  by (simp add: assign_ids_def case_prod_unfold comp_def)

lemma map_k_KeyCode_assign_ids: "map k_KeyCode (assign_ids start ks) = map k_KeyCode ks"
  using map_enumerate_ids [of k_KeyCode start 0 ks]
  by (simp add: assign_ids_def case_prod_unfold comp_def)

lemma map_k_Code_make_keys:
  "map k_Code (make_keys gen req creatorType keyType software)
     = map (\<lambda>i. fst (gen i)) [0 ..< nat (sint (bc_Count req))]"
  "map k_KeyCode (make_keys gen req creatorType keyType software)
     = map (\<lambda>i. snd (gen i)) [0 ..< nat (sint (bc_Count req))]"
  by (simp_all add: make_keys_def comp_def)

lemma unique_codes_example:
  "unique_codes (assign_ids start (make_keys example_gen req7 creatorType keyType software))"
  unfolding unique_codes_def map_k_Code_assign_ids map_k_KeyCode_assign_ids map_k_Code_make_keys
  by (simp add: req7_def example_gen_codes)


lemma BatchCreateKeys_example:
  "BatchCreateKeys exact_ops example_gen db7 req7 =
     (Inr (assign_ids 1 (make_keys example_gen req7 ''admin''
             \<lparr>kt_ID = 2, kt_Name = ''month'', kt_Hours = 720, kt_Price = 999 / 100,
              kt_Status = ''active'', kt_IsActive = True\<rparr> example_software)),
      db7\<lparr>tbl_keys := assign_ids 1 (make_keys example_gen req7 ''admin''
             \<lparr>kt_ID = 2, kt_Name = ''month'', kt_Hours = 720, kt_Price = 999 / 100,
              kt_Status = ''active'', kt_IsActive = True\<rparr> example_software)\<rparr>)"
proof -
  have count: "\<not> (sint (bc_Count req7) \<le> 0 \<or> 1000 < sint (bc_Count req7))"
    and req: "bc_CreatorType req7 = []" "bc_TypeID req7 = 2" "bc_SoftwareID req7 = 1"
    by (simp_all add: req7_def)
  have tables: "tbl_keys db7 = []"
    "tbl_key_types db7 = [\<lparr>kt_ID = 2, kt_Name = ''month'', kt_Hours = 720,
        kt_Price = 999 / 100, kt_Status = ''active'', kt_IsActive = True\<rparr>]"
    "tbl_softwares db7 = [example_software]"
    "tbl_software_key_types db7 =
       [\<lparr>skt_ID = 1, skt_SoftwareID = 1, skt_KeyTypeID = 2, skt_IsActive = True\<rparr>]"
    by (simp_all add: db7_def empty_db_def)
  have sw: "sw_ID example_software = 1" "sw_Status example_software = ''active''"
    "sw_IsActive example_software"
    by (simp_all add: example_software_def)
  show ?thesis
    unfolding BatchCreateKeys_def
    by (simp only: count req tables sw if_False Let_def) (simp add: next_id_def unique_codes_example sw)
qed

lemma db7_key_type:
  "find (\<lambda>t. kt_ID t = bc_TypeID req7) (tbl_key_types db7) =
     Some \<lparr>kt_ID = 2, kt_Name = ''month'', kt_Hours = 720, kt_Price = 999 / 100,
           kt_Status = ''active'', kt_IsActive = True\<rparr>"
  by (simp add: db7_def empty_db_def req7_def)

theorem BatchCreateKeys_mint_witness:
  "\<exists>keys db'. BatchCreateKeys exact_ops example_gen db7 req7 = (Inr keys, db')
     \<and> length keys = 5
     \<and> list_all (\<lambda>k. k_Status k = ''unused'' \<and> k_TypeName k = ''month''
                      \<and> k_Hours k = 720 \<and> k_Price k = 999 / 100) keys
     \<and> tbl_keys db' = keys"
proof -
  let ?keys = "assign_ids 1 (make_keys example_gen req7 ''admin''
             \<lparr>kt_ID = 2, kt_Name = ''month'', kt_Hours = 720, kt_Price = 999 / 100 :: real,
              kt_Status = ''active'', kt_IsActive = True\<rparr> example_software)"
  let ?db = "db7\<lparr>tbl_keys := ?keys\<rparr>"
  have run: "BatchCreateKeys exact_ops example_gen db7 req7 = (Inr ?keys, ?db)"
    by (rule BatchCreateKeys_example)
  note mint = BatchCreateKeys_mint [of req7 exact_ops example_gen db7 ?keys ?db,
      THEN conjunct2, THEN mp, OF run]
  note len = mint [THEN conjunct2, THEN conjunct2, THEN conjunct2, THEN conjunct1]
  from mint [THEN conjunct2, THEN conjunct2, THEN conjunct1]
  obtain keyType where
    kt: "find (\<lambda>t. kt_ID t = bc_TypeID req7) (tbl_key_types db7) = Some keyType"
    and fields: "\<forall>k \<in> set ?keys. k_Status k = ''unused'' \<and> k_TypeName k = kt_Name keyType
        \<and> k_Hours k = kt_Hours keyType \<and> k_Price k = kt_Price keyType"
    by (elim conjE exE) (rule that; assumption)
  from kt have keyType: "kt_Name keyType = ''month'' \<and> kt_Hours keyType = 720
      \<and> kt_Price keyType = 999 / 100"
    unfolding db7_key_type by auto
  show ?thesis
  proof (intro exI conjI)
    show "BatchCreateKeys exact_ops example_gen db7 req7 = (Inr ?keys, ?db)"
      by (rule run)
    show "length ?keys = 5"
      using len by (simp add: req7_def)
    show "list_all (\<lambda>k. k_Status k = ''unused'' \<and> k_TypeName k = ''month''
                      \<and> k_Hours k = 720 \<and> k_Price k = 999 / 100) ?keys"
      unfolding list_all_iff using fields keyType by simp
    show "tbl_keys ?db = ?keys" by simp
  qed
qed

section \<open>Properties of the cycle check\<close>

lemma isCircularReference_self:
  "isCircularReference (Suc depth) fails db x x = Some True"
  by simp

lemma parent_relI:
  "s \<in> set (tbl_salespersons db) \<Longrightarrow> sp_ParentID s = Some a \<Longrightarrow> (sp_ID s, a) \<in> parent_rel db"
  by (auto simp: parent_rel_def)

lemma parent_relE:
  assumes "(x, a) \<in> parent_rel db"
  obtains s where "s \<in> set (tbl_salespersons db)" and "sp_ID s = x" and "sp_ParentID s = Some a"
  using assms by (auto simp: parent_rel_def)

text \<open>
  An answer \<open>False\<close> tells that the potential parent is not the child itself. It tells
  that the potential parent is not one of the child's descendants either, provided that
  the children queries on the way down to it succeed: those for the child and for the
  descendants of the child that have the potential parent below them.
\<close>

lemma isCircularReference_neq:
  "isCircularReference depth fails db p c = Some False \<Longrightarrow> p \<noteq> c"
  by (cases depth) (simp_all split: if_splits)

lemma isCircularReference_False:
  "isCircularReference depth fails db p c = Some False \<Longrightarrow>
   \<forall>x. (p, x) \<in> (parent_rel db)\<^sup>+ \<and> (x, c) \<in> (parent_rel db)\<^sup>* \<longrightarrow> \<not> fails x \<Longrightarrow>
   (p, c) \<notin> (parent_rel db)\<^sup>+"
  and check_children_False:
  "check_children depth fails db p children = Some False \<Longrightarrow>
     \<forall>child \<in> set children. sp_ID child \<noteq> p \<and>
       ((\<forall>x. (p, x) \<in> (parent_rel db)\<^sup>+ \<and> (x, sp_ID child) \<in> (parent_rel db)\<^sup>* \<longrightarrow> \<not> fails x)
        \<longrightarrow> (p, sp_ID child) \<notin> (parent_rel db)\<^sup>+)"
proof (induction depth fails db p c and depth fails db p children
    rule: isCircularReference_check_children.induct)
  case (1 fails db p c)
  then show ?case by simp
next
  case (2 depth fails db p c)
  let ?children = "filter (\<lambda>s. sp_ParentID s = Some c) (tbl_salespersons db)"
  from "2.prems"(1) have neq: "p \<noteq> c"
    by (simp split: if_splits)
  show ?case
  proof
    assume below: "(p, c) \<in> (parent_rel db)\<^sup>+"
    with "2.prems"(2) have answered: "\<not> fails c" by blast
    have kids: "\<forall>child \<in> set ?children. sp_ID child \<noteq> p \<and>
        ((\<forall>x. (p, x) \<in> (parent_rel db)\<^sup>+ \<and> (x, sp_ID child) \<in> (parent_rel db)\<^sup>* \<longrightarrow> \<not> fails x)
         \<longrightarrow> (p, sp_ID child) \<notin> (parent_rel db)\<^sup>+)"
    proof (cases "?children = []")
      case True
      then show ?thesis by simp
    next
      case False
      with "2.prems"(1) neq answered
      have "check_children depth fails db p ?children = Some False"
        by (simp add: Let_def)
      with "2.IH" neq answered False show ?thesis by simp
    qed
    from below show False
    proof (cases rule: tranclE)
      case base
      then obtain s where "s \<in> set (tbl_salespersons db)" "sp_ID s = p" "sp_ParentID s = Some c"
        by (rule parent_relE)
      then have "s \<in> set ?children" by simp
      with kids \<open>sp_ID s = p\<close> show False by blast
    next
      case (step y)
      from step(2) obtain s where "s \<in> set (tbl_salespersons db)" "sp_ID s = y"
        "sp_ParentID s = Some c"
        by (rule parent_relE)
      then have child: "s \<in> set ?children" by simp
      have "\<not> fails x" if "(p, x) \<in> (parent_rel db)\<^sup>+" and "(x, y) \<in> (parent_rel db)\<^sup>*" for x
      proof -
        from that(2) step(2) have "(x, c) \<in> (parent_rel db)\<^sup>*"
          by (rule rtrancl_into_rtrancl)
        with "2.prems"(2) that(1) show ?thesis by blast
      qed
      with kids child \<open>sp_ID s = y\<close> step(1) show False by blast
    qed
  qed
next
  case (3 depth fails db p)
  then show ?case by simp
next
  case (4 depth fails db p child rest)
  from "4.prems" have neq: "sp_ID child \<noteq> p"
    by (simp split: if_splits)
  with "4.prems" have this_child: "isCircularReference depth fails db p (sp_ID child) = Some False"
    and others: "check_children depth fails db p rest = Some False"
    by (simp_all split: option.splits bool.splits)
  from "4.IH"(1) neq this_child
  have "(\<forall>x. (p, x) \<in> (parent_rel db)\<^sup>+ \<and> (x, sp_ID child) \<in> (parent_rel db)\<^sup>* \<longrightarrow> \<not> fails x)
      \<longrightarrow> (p, sp_ID child) \<notin> (parent_rel db)\<^sup>+"
    by simp
  moreover from "4.IH"(2) neq this_child others
  have "\<forall>c \<in> set rest. sp_ID c \<noteq> p \<and>
      ((\<forall>x. (p, x) \<in> (parent_rel db)\<^sup>+ \<and> (x, sp_ID c) \<in> (parent_rel db)\<^sup>* \<longrightarrow> \<not> fails x)
       \<longrightarrow> (p, sp_ID c) \<notin> (parent_rel db)\<^sup>+)"
    by simp
  ultimately show ?case using neq by simp
qed

text \<open>
  The check returns when it starts at a salesperson without a parent, whichever queries
  fail: the part of the parent relation below such a root is finite and has no cycle,
  because every salesperson has one row and so at most one parent.
\<close>

lemma finite_parent_rel: "finite (parent_rel db)"
proof -
  have "parent_rel db \<subseteq> (\<lambda>s. (sp_ID s, the (sp_ParentID s))) ` set (tbl_salespersons db)"
    by (force simp: parent_rel_def)
  then show ?thesis by (rule finite_subset) simp
qed

lemma single_valued_parent_rel:
  assumes "distinct (map sp_ID (tbl_salespersons db))"
  shows "single_valued (parent_rel db)"
proof (rule single_valuedI)
  fix x a b
  assume "(x, a) \<in> parent_rel db" and "(x, b) \<in> parent_rel db"
  then obtain s s' where s: "s \<in> set (tbl_salespersons db)" "sp_ID s = x" "sp_ParentID s = Some a"
    and s': "s' \<in> set (tbl_salespersons db)" "sp_ID s' = x" "sp_ParentID s' = Some b"
    by (auto elim!: parent_relE)
  from assms s(1) s'(1) have "s = s'"
    by (rule distinct_map_same) (simp add: s(2) s'(2))
  with s(3) s'(3) show "a = b" by simp
qed

lemma no_cycle_below_root:
  assumes "single_valued R" and "(x, r) \<in> R\<^sup>*" and "\<And>y. (r, y) \<notin> R"
  shows "(x, x) \<notin> R\<^sup>+"
  using assms(2)
proof (induction rule: converse_rtrancl_induct)
  case base
  show ?case
  proof
    assume "(r, r) \<in> R\<^sup>+"
    then obtain y where "(r, y) \<in> R" by (auto dest: tranclD)
    with assms(3) show False by blast
  qed
next
  case (step x y)
  show ?case
  proof
    assume "(x, x) \<in> R\<^sup>+"
    then obtain z where "(x, z) \<in> R" and "(z, x) \<in> R\<^sup>*" by (auto dest: tranclD)
    with assms(1) step.hyps(1) have "(y, x) \<in> R\<^sup>*" by (auto dest: single_valuedD)
    then have "(y, y) \<in> R\<^sup>+" using step.hyps(1) by (rule rtrancl_into_trancl1)
    with step.IH show False by blast
  qed
qed

lemma wf_below_root:
  assumes "single_valued R" and "finite R" and "\<And>y. (r, y) \<notin> R"
  shows "wf {(x, a). (x, a) \<in> R \<and> (a, r) \<in> R\<^sup>*}"
proof (rule finite_acyclic_wf)
  let ?S = "{(x, a). (x, a) \<in> R \<and> (a, r) \<in> R\<^sup>*}"
  have sub: "?S \<subseteq> R" by blast
  then show "finite ?S" using assms(2) by (rule finite_subset)
  show "acyclic ?S"
  proof (rule acyclicI, rule allI, rule notI)
    fix x
    assume cyc: "(x, x) \<in> ?S\<^sup>+"
    then obtain z where "(z, x) \<in> ?S" by (auto dest: tranclD2)
    then have "(x, r) \<in> R\<^sup>*" by simp
    moreover from cyc sub have "(x, x) \<in> R\<^sup>+" by (meson trancl_mono)
    ultimately show False using no_cycle_below_root [OF assms(1) _ assms(3)] by blast
  qed
qed

lemma check_children_returns:
  "(\<And>child. child \<in> set children \<Longrightarrow> isCircularReference depth fails db p (sp_ID child) \<noteq> None)
   \<Longrightarrow> check_children depth fails db p children \<noteq> None"
proof (induction children)
  case Nil
  show ?case by simp
next
  case (Cons child rest)
  have "isCircularReference depth fails db p (sp_ID child) \<noteq> None"
    by (rule Cons.prems) simp
  moreover have "check_children depth fails db p rest \<noteq> None"
    by (rule Cons.IH, rule Cons.prems) simp
  ultimately show ?case
    by (auto split: option.splits bool.splits)
qed

lemma isCircularReference_returns_below:
  assumes wf: "wf {(x, a). (x, a) \<in> parent_rel db \<and> (a, r) \<in> (parent_rel db)\<^sup>*}"
  shows "(c, r) \<in> (parent_rel db)\<^sup>* \<Longrightarrow>
    \<exists>N. \<forall>depth \<ge> N. \<forall>p. isCircularReference depth fails db p c \<noteq> None"
  using wf
proof (induction c rule: wf_induct_rule)
  case (less c)
  let ?children = "filter (\<lambda>s. sp_ParentID s = Some c) (tbl_salespersons db)"
  have "\<exists>N. \<forall>depth \<ge> N. \<forall>p. isCircularReference depth fails db p (sp_ID child) \<noteq> None"
    if "child \<in> set ?children" for child
  proof -
    from that have edge: "(sp_ID child, c) \<in> parent_rel db"
      by (simp add: parent_relI)
    then have "(sp_ID child, r) \<in> (parent_rel db)\<^sup>*"
      using less.prems by (rule converse_rtrancl_into_rtrancl)
    moreover from edge less.prems
    have "(sp_ID child, c) \<in> {(x, a). (x, a) \<in> parent_rel db \<and> (a, r) \<in> (parent_rel db)\<^sup>*}"
      by simp
    ultimately show ?thesis by (rule less.IH [rotated])
  qed
  then obtain bound where bound:
    "\<And>child depth p. child \<in> set ?children \<Longrightarrow> bound child \<le> depth \<Longrightarrow>
       isCircularReference depth fails db p (sp_ID child) \<noteq> None"
    by metis
  let ?M = "sum_list (map bound ?children)"
  have "isCircularReference depth fails db p c \<noteq> None" if "Suc ?M \<le> depth" for depth p
  proof -
    from that obtain d where depth: "depth = Suc d" and d: "?M \<le> d"
      by (cases depth) auto
    have "check_children d fails db p ?children \<noteq> None"
    proof (rule check_children_returns)
      fix child
      assume child: "child \<in> set ?children"
      then have "bound child \<le> ?M"
        by (intro member_le_sum_list) simp_all
      with d have "bound child \<le> d" by simp
      with child show "isCircularReference d fails db p (sp_ID child) \<noteq> None"
        by (rule bound)
    qed
    then show ?thesis by (auto simp: depth Let_def)
  qed
  then show ?case by blast
qed

lemma isCircularReference_returns_root:
  assumes "distinct (map sp_ID (tbl_salespersons db))"
    and root: "\<And>s. s \<in> set (tbl_salespersons db) \<Longrightarrow> sp_ID s = r \<Longrightarrow> sp_ParentID s = None"
  shows "\<exists>N. \<forall>depth \<ge> N. \<forall>p. isCircularReference depth fails db p r \<noteq> None"
proof -
  have "(r, y) \<notin> parent_rel db" for y
    using root by (auto elim!: parent_relE)
  with single_valued_parent_rel [OF assms(1)] finite_parent_rel
  have "wf {(x, a). (x, a) \<in> parent_rel db \<and> (a, r) \<in> (parent_rel db)\<^sup>*}"
    by (rule wf_below_root)
  then show ?thesis
    by (rule isCircularReference_returns_below) simp
qed

section \<open>Properties of accepting an invitation\<close>

text \<open>What each kind of outcome of \<open>AcceptAgentInvitation\<close> tells about the run.\<close>

lemma Accept_error_keeps_salespersons:
  assumes "AcceptAgentInvitation depth fault fails db req now now' = Some (Inl e, db')"
  shows "tbl_salespersons db' = tbl_salespersons db"
  using assms
  by (auto simp: AcceptAgentInvitation_def Let_def
      split: if_splits option.splits bool.splits)

lemma Accept_None_D:
  assumes "AcceptAgentInvitation depth fault fails db req now now' = None"
  shows "\<exists>invitation salespersonID salesperson.
    find (\<lambda>i. inv_InviteCode i = acc_InviteCode req \<and> inv_Status i = ''pending'')
      (tbl_salesperson_agent_invitations db) = Some invitation
    \<and> acc_SalespersonID req = Some salespersonID
    \<and> find (\<lambda>s. int (sp_ID s) = salespersonID) (tbl_salespersons db) = Some salesperson
    \<and> sp_ParentID salesperson = None
    \<and> isCircularReference depth fails db (inv_InviterID invitation) (nat salespersonID) = None"
  using assms
  by (auto simp: AcceptAgentInvitation_def Let_def
      split: if_splits option.splits bool.splits)

lemma Accept_success_D:
  assumes "AcceptAgentInvitation depth fault fails db req now now' = Some (Inr r, db')"
  shows "\<exists>invitation salespersonID.
    find (\<lambda>i. inv_InviteCode i = acc_InviteCode req \<and> inv_Status i = ''pending'')
      (tbl_salesperson_agent_invitations db) = Some invitation
    \<and> acc_SalespersonID req = Some salespersonID
    \<and> isCircularReference depth fails db (inv_InviterID invitation) (nat salespersonID) = Some False"
  using assms
  by (auto simp: AcceptAgentInvitation_def Let_def
      split: if_splits option.splits bool.splits)

lemma Accept_cycle_detected:
  assumes "acc_InviteCode req \<noteq> []"
    and "find (\<lambda>i. inv_InviteCode i = acc_InviteCode req \<and> inv_Status i = ''pending'')
           (tbl_salesperson_agent_invitations db) = Some invitation"
    and "\<not> time_After now (inv_ExpiredAt invitation)"
    and "acc_SalespersonID req = Some salespersonID"
    and "find (\<lambda>s. int (sp_ID s) = salespersonID) (tbl_salespersons db) = Some salesperson"
    and "find (\<lambda>s. sp_ID s = inv_InviterID invitation) (tbl_salespersons db) = Some inviter"
    and "sint (sp_Level inviter) < sint MaxAgentLevel"
    and "sp_ParentID salesperson = None"
    and "isCircularReference depth fails db (inv_InviterID invitation) (nat salespersonID) = Some True"
  shows "AcceptAgentInvitation depth fault fails db req now now' = Some (Inl Acc_CircularReference, db)"
  using assms by (simp add: AcceptAgentInvitation_def)

lemma sint_level_Suc:
  assumes "sint (l :: 64 word) < sint MaxAgentLevel"
  shows "sint (l + 1) = sint l + 1"
proof -
  have "- (2 ^ 63) \<le> sint l" using sint_ge [of l] by simp
  moreover from assms have "sint l < 5" by (simp add: MaxAgentLevel_def)
  ultimately have "signed_take_bit 63 (sint l + 1) = sint l + 1"
    by (intro signed_take_bit_int_eq_self) simp_all
  then show ?thesis by (simp add: sint_word_ariths)
qed

lemma find_update_where_other:
  "(\<And>r. Q r \<Longrightarrow> \<not> P r) \<Longrightarrow> (\<And>r. Q r \<Longrightarrow> \<not> P (f r)) \<Longrightarrow>
   find P (update_where Q f rows) = find P rows"
  by (induction rows) (auto simp: update_where_def)

text \<open>
  The store after a successful acceptance, as the handler's statements leave it, and the
  outcome when the store fails one of them.
\<close>

lemma Accept_commit:
  assumes "acc_InviteCode req \<noteq> []"
    and "find (\<lambda>i. inv_InviteCode i = acc_InviteCode req \<and> inv_Status i = ''pending'')
           (tbl_salesperson_agent_invitations db) = Some invitation"
    and "\<not> time_After now (inv_ExpiredAt invitation)"
    and "acc_SalespersonID req = Some salespersonID"
    and "find (\<lambda>s. int (sp_ID s) = salespersonID) (tbl_salespersons db) = Some salesperson"
    and "find (\<lambda>s. sp_ID s = inv_InviterID invitation) (tbl_salespersons db) = Some inviter"
    and "sint (sp_Level inviter) < sint MaxAgentLevel"
    and "sp_ParentID salesperson = None"
    and "isCircularReference depth fails db (inv_InviterID invitation) (nat salespersonID) = Some False"
  shows "AcceptAgentInvitation depth None fails db req now now' =
    Some (Inr (sp_ID inviter, sp_Name inviter),
      db\<lparr>tbl_salespersons :=
           update_where (\<lambda>s. sp_ID s = sp_ID inviter)
             (\<lambda>s. s\<lparr>sp_ChildrenCount := sp_ChildrenCount s + 1\<rparr>)
             (update_where (\<lambda>s. sp_ID s = sp_ID salesperson)
                (\<lambda>_. salesperson\<lparr>sp_ParentID := Some (inv_InviterID invitation),
                                  sp_Level := sp_Level inviter + 1\<rparr>)
                (tbl_salespersons db)),
         tbl_salesperson_agent_invitations :=
           update_where (\<lambda>i. inv_ID i = inv_ID invitation)
             (\<lambda>_. invitation\<lparr>inv_Status := ''accepted'',
                              inv_InviteeID := Some (sp_ID salesperson),
                              inv_AcceptedAt := Some now'\<rparr>)
             (tbl_salesperson_agent_invitations db)\<rparr>)"
  using assms sint_level_Suc [OF assms(7)]
  by (simp add: AcceptAgentInvitation_def Let_def)

lemma Accept_rollback:
  assumes "acc_InviteCode req \<noteq> []"
    and "find (\<lambda>i. inv_InviteCode i = acc_InviteCode req \<and> inv_Status i = ''pending'')
           (tbl_salesperson_agent_invitations db) = Some invitation"
    and "\<not> time_After now (inv_ExpiredAt invitation)"
    and "acc_SalespersonID req = Some salespersonID"
    and "find (\<lambda>s. int (sp_ID s) = salespersonID) (tbl_salespersons db) = Some salesperson"
    and "find (\<lambda>s. sp_ID s = inv_InviterID invitation) (tbl_salespersons db) = Some inviter"
    and "sint (sp_Level inviter) < sint MaxAgentLevel"
    and "sp_ParentID salesperson = None"
    and "isCircularReference depth fails db (inv_InviterID invitation) (nat salespersonID) = Some False"
  shows "AcceptAgentInvitation depth (Some step) fails db req now now'
           = Some (Inl (Acc_StoreFailed step), db)"
  using assms sint_level_Suc [OF assms(7)]
  by (cases step) (simp_all add: AcceptAgentInvitation_def Let_def)

lemma Accept_max_level:
  assumes "acc_InviteCode req \<noteq> []"
    and "find (\<lambda>i. inv_InviteCode i = acc_InviteCode req \<and> inv_Status i = ''pending'')
           (tbl_salesperson_agent_invitations db) = Some invitation"
    and "\<not> time_After now (inv_ExpiredAt invitation)"
    and "acc_SalespersonID req = Some salespersonID"
    and "find (\<lambda>s. int (sp_ID s) = salespersonID) (tbl_salespersons db) = Some salesperson"
    and "find (\<lambda>s. sp_ID s = inv_InviterID invitation) (tbl_salespersons db) = Some inviter"
    and "sint MaxAgentLevel \<le> sint (sp_Level inviter)"
  shows "AcceptAgentInvitation depth fault fails db req now now' = Some (Inl Acc_MaxLevelReached, db)"
  using assms by (simp add: AcceptAgentInvitation_def)

text \<open>
  Claim C1. Take a pending invitation that the invite code selects, and an accepter who
  is the inviter or has the inviter among its direct or indirect descendants (ids are
  distinct). Suppose that the children queries on the way from the accepter down to the
  inviter succeed: the one for the accepter and those for the descendants of the accepter
  that have the inviter below them. Then, once the stack is deep enough for the
  traversal, accepting fails and leaves the table of salespersons as it was; and when the
  checks before the cycle check pass (the invitation has not expired, accepter and
  inviter exist, the inviter is below the maximal level, the accepter has no parent) the
  failure is the one of the cycle check and nothing at all is written. No query is made
  when the inviter is the accepter, and a failed query elsewhere in the hierarchy does no
  harm.
\<close>

theorem accept_rejects_cycle:
  assumes ids: "distinct (map sp_ID (tbl_salespersons db))"
    and inv: "find (\<lambda>i. inv_InviteCode i = acc_InviteCode req \<and> inv_Status i = ''pending'')
                (tbl_salesperson_agent_invitations db) = Some invitation"
    and sid: "acc_SalespersonID req = Some salespersonID"
    and cyc: "inv_InviterID invitation = nat salespersonID
              \<or> descendant db (nat salespersonID) (inv_InviterID invitation)"
    and queries: "\<forall>x. descendant db x (inv_InviterID invitation)
                   \<and> (x = nat salespersonID \<or> descendant db (nat salespersonID) x)
                   \<longrightarrow> \<not> fails x"
  shows "\<exists>N. \<forall>depth \<ge> N.
      (\<exists>e db'. AcceptAgentInvitation depth fault fails db req now now' = Some (Inl e, db')
          \<and> tbl_salespersons db' = tbl_salespersons db)
      \<and> (acc_InviteCode req \<noteq> [] \<and> \<not> time_After now (inv_ExpiredAt invitation)
          \<and> (\<exists>salesperson inviter.
                find (\<lambda>s. int (sp_ID s) = salespersonID) (tbl_salespersons db) = Some salesperson
                \<and> find (\<lambda>s. sp_ID s = inv_InviterID invitation) (tbl_salespersons db)
                    = Some inviter
                \<and> sint (sp_Level inviter) < sint MaxAgentLevel
                \<and> sp_ParentID salesperson = None)
          \<longrightarrow> AcceptAgentInvitation depth fault fails db req now now'
                = Some (Inl Acc_CircularReference, db))"
proof -
  let ?p = "inv_InviterID invitation" and ?c = "nat salespersonID"
  have on_the_way: "\<forall>x. (?p, x) \<in> (parent_rel db)\<^sup>+ \<and> (x, ?c) \<in> (parent_rel db)\<^sup>* \<longrightarrow> \<not> fails x"
    using queries by (auto simp: descendant_def rtrancl_eq_or_trancl)
  have not_False: "isCircularReference depth fails db ?p ?c \<noteq> Some False" for depth
    using isCircularReference_neq [of depth fails db ?p ?c]
      isCircularReference_False [of depth fails db ?p ?c, OF _ on_the_way] cyc
    by (auto simp: descendant_def)
  have "\<exists>N. \<forall>depth \<ge> N. isCircularReference depth fails db ?p ?c \<noteq> None"
    if "find (\<lambda>s. int (sp_ID s) = salespersonID) (tbl_salespersons db) = Some salesperson"
      and "sp_ParentID salesperson = None" for salesperson
  proof -
    from find_SomeD [OF that(1)] have row: "salesperson \<in> set (tbl_salespersons db)"
      and "int (sp_ID salesperson) = salespersonID"
      by simp_all
    then have id: "sp_ID salesperson = ?c" by auto
    have "sp_ParentID s = None" if "s \<in> set (tbl_salespersons db)" and "sp_ID s = ?c" for s
    proof -
      from ids that(1) row have "s = salesperson"
        by (rule distinct_map_same) (simp add: that(2) id)
      with \<open>sp_ParentID salesperson = None\<close> show ?thesis by simp
    qed
    with ids have "\<exists>N. \<forall>depth \<ge> N. \<forall>p. isCircularReference depth fails db p ?c \<noteq> None"
      by (rule isCircularReference_returns_root)
    then show ?thesis by blast
  qed
  then obtain N where returns:
    "\<And>depth salesperson. N \<le> depth \<Longrightarrow>
       find (\<lambda>s. int (sp_ID s) = salespersonID) (tbl_salespersons db) = Some salesperson \<Longrightarrow>
       sp_ParentID salesperson = None \<Longrightarrow> isCircularReference depth fails db ?p ?c \<noteq> None"
    by (metis option.inject)
  have "(\<exists>e db'. AcceptAgentInvitation depth fault fails db req now now' = Some (Inl e, db')
          \<and> tbl_salespersons db' = tbl_salespersons db)
      \<and> (acc_InviteCode req \<noteq> [] \<and> \<not> time_After now (inv_ExpiredAt invitation)
          \<and> (\<exists>salesperson inviter.
                find (\<lambda>s. int (sp_ID s) = salespersonID) (tbl_salespersons db) = Some salesperson
                \<and> find (\<lambda>s. sp_ID s = inv_InviterID invitation) (tbl_salespersons db)
                    = Some inviter
                \<and> sint (sp_Level inviter) < sint MaxAgentLevel
                \<and> sp_ParentID salesperson = None)
          \<longrightarrow> AcceptAgentInvitation depth fault fails db req now now'
                = Some (Inl Acc_CircularReference, db))"
    if depth: "N \<le> depth" for depth
  proof (intro conjI impI)
    let ?run = "AcceptAgentInvitation depth fault fails db req now now'"
    have "?run \<noteq> None"
    proof
      assume "?run = None"
      from Accept_None_D [OF this] inv sid obtain salesperson where
        "find (\<lambda>s. int (sp_ID s) = salespersonID) (tbl_salespersons db) = Some salesperson"
        "sp_ParentID salesperson = None"
        "isCircularReference depth fails db ?p ?c = None"
        by auto
      with returns [OF depth] show False by blast
    qed
    then obtain out db' where run: "?run = Some (out, db')" by auto
    have "\<exists>e. out = Inl e"
    proof (cases out)
      case (Inr r)
      from Accept_success_D [OF run [unfolded Inr]] inv sid
      have "isCircularReference depth fails db ?p ?c = Some False" by auto
      with not_False show ?thesis by blast
    qed simp
    then obtain e where "out = Inl e" ..
    with run Accept_error_keeps_salespersons [of depth fault fails db req now now' e db']
    show "\<exists>e db'. ?run = Some (Inl e, db') \<and> tbl_salespersons db' = tbl_salespersons db"
      by blast
  next
    assume guards: "acc_InviteCode req \<noteq> [] \<and> \<not> time_After now (inv_ExpiredAt invitation)
          \<and> (\<exists>salesperson inviter.
                find (\<lambda>s. int (sp_ID s) = salespersonID) (tbl_salespersons db) = Some salesperson
                \<and> find (\<lambda>s. sp_ID s = inv_InviterID invitation) (tbl_salespersons db)
                    = Some inviter
                \<and> sint (sp_Level inviter) < sint MaxAgentLevel
                \<and> sp_ParentID salesperson = None)"
    then obtain salesperson inviter where
      found: "find (\<lambda>s. int (sp_ID s) = salespersonID) (tbl_salespersons db) = Some salesperson"
        "find (\<lambda>s. sp_ID s = inv_InviterID invitation) (tbl_salespersons db) = Some inviter"
        "sint (sp_Level inviter) < sint MaxAgentLevel" "sp_ParentID salesperson = None"
      by blast
    from returns [OF depth found(1) found(4)] not_False [of depth]
    have "isCircularReference depth fails db ?p ?c = Some True" by auto
    with guards inv sid found
    show "AcceptAgentInvitation depth fault fails db req now now' = Some (Inl Acc_CircularReference, db)"
      by (intro Accept_cycle_detected) simp_all
  qed
  then show ?thesis by blast
qed

lemma db1_tables:
  "tbl_salespersons db1 = [example_sp 1 ''A'' None 0 1, example_sp 2 ''B'' (Some 1) 1 1,
                          example_sp 3 ''C'' (Some 2) 2 0]"
  "tbl_salesperson_agent_invitations db1 = [example_inv 1 2 ''INVB'' 1000,
                                            example_inv 2 3 ''INVC'' 1000]"
  by (simp_all add: db1_def empty_db_def)

lemma db1_ids: "distinct (map sp_ID (tbl_salespersons db1))"
  by (simp add: db1_tables example_sp_def)

lemma db1_find:
  "find (\<lambda>s. int (sp_ID s) = 1) (tbl_salespersons db1) = Some (example_sp 1 ''A'' None 0 1)"
  "find (\<lambda>s. sp_ID s = 2) (tbl_salespersons db1) = Some (example_sp 2 ''B'' (Some 1) 1 1)"
  "find (\<lambda>s. sp_ID s = 3) (tbl_salespersons db1) = Some (example_sp 3 ''C'' (Some 2) 2 0)"
  by (simp_all add: db1_tables example_sp_def)

lemma db1_invitations:
  "find (\<lambda>i. inv_InviteCode i = acc_InviteCode accept_INVB_by_A \<and> inv_Status i = ''pending'')
     (tbl_salesperson_agent_invitations db1) = Some (example_inv 1 2 ''INVB'' 1000)"
  "find (\<lambda>i. inv_InviteCode i = acc_InviteCode accept_INVC_by_A \<and> inv_Status i = ''pending'')
     (tbl_salesperson_agent_invitations db1) = Some (example_inv 2 3 ''INVC'' 1000)"
  by (simp_all add: db1_tables example_inv_def accept_INVB_by_A_def accept_INVC_by_A_def)

lemma db1_descendants: "descendant db1 1 2" "descendant db1 1 3"
proof -
  have "(sp_ID (example_sp 2 ''B'' (Some 1) 1 1), 1) \<in> parent_rel db1"
    by (rule parent_relI) (simp_all add: db1_tables, simp add: example_sp_def)
  moreover have "(sp_ID (example_sp 3 ''C'' (Some 2) 2 0), 2) \<in> parent_rel db1"
    by (rule parent_relI) (simp_all add: db1_tables, simp add: example_sp_def)
  ultimately have "(2, 1) \<in> parent_rel db1" and "(3, 2) \<in> parent_rel db1"
    by (simp_all add: example_sp_def)
  then show "descendant db1 1 2" and "descendant db1 1 3"
    unfolding descendant_def by (blast intro: trancl.intros)+
qed

theorem accept_rejects_cycle_witness:
  "(\<exists>N. \<forall>depth \<ge> N.
      AcceptAgentInvitation depth None no_failure db1 accept_INVB_by_A 100 101
      = Some (Inl Acc_CircularReference, db1))
   \<and> (\<exists>N. \<forall>depth \<ge> N.
      AcceptAgentInvitation depth None no_failure db1 accept_INVC_by_A 100 101
      = Some (Inl Acc_CircularReference, db1))"
proof
  have sid: "acc_SalespersonID accept_INVB_by_A = Some 1"
    by (simp add: accept_INVB_by_A_def)
  have cyc: "inv_InviterID (example_inv 1 2 ''INVB'' 1000) = nat 1
      \<or> descendant db1 (nat 1) (inv_InviterID (example_inv 1 2 ''INVB'' 1000))"
    using db1_descendants(1) by (simp add: example_inv_def)
  have guards: "acc_InviteCode accept_INVB_by_A \<noteq> []
      \<and> \<not> time_After 100 (inv_ExpiredAt (example_inv 1 2 ''INVB'' 1000))
      \<and> (\<exists>salesperson inviter.
            find (\<lambda>s. int (sp_ID s) = 1) (tbl_salespersons db1) = Some salesperson
            \<and> find (\<lambda>s. sp_ID s = inv_InviterID (example_inv 1 2 ''INVB'' 1000))
                  (tbl_salespersons db1) = Some inviter
            \<and> sint (sp_Level inviter) < sint MaxAgentLevel
            \<and> sp_ParentID salesperson = None)"
  proof (intro conjI exI)
    show "find (\<lambda>s. int (sp_ID s) = 1) (tbl_salespersons db1)
        = Some (example_sp 1 ''A'' None 0 1)"
      by (rule db1_find)
    show "find (\<lambda>s. sp_ID s = inv_InviterID (example_inv 1 2 ''INVB'' 1000))
        (tbl_salespersons db1) = Some (example_sp 2 ''B'' (Some 1) 1 1)"
      using db1_find(2) by (simp add: example_inv_def)
  qed (simp_all add: accept_INVB_by_A_def time_After_def example_inv_def example_sp_def
      MaxAgentLevel_def)
  have queries: "\<forall>x. descendant db1 x (inv_InviterID (example_inv 1 2 ''INVB'' 1000))
      \<and> (x = nat 1 \<or> descendant db1 (nat 1) x) \<longrightarrow> \<not> no_failure x"
    by (simp add: no_failure_def)
  from accept_rejects_cycle [where fault = None and now = 100 and now' = 101,
      OF db1_ids db1_invitations(1) sid cyc queries]
  obtain N where "\<forall>depth \<ge> N.
      (\<exists>e db'. AcceptAgentInvitation depth None no_failure db1 accept_INVB_by_A 100 101 = Some (Inl e, db')
          \<and> tbl_salespersons db' = tbl_salespersons db1)
      \<and> (acc_InviteCode accept_INVB_by_A \<noteq> []
          \<and> \<not> time_After 100 (inv_ExpiredAt (example_inv 1 2 ''INVB'' 1000))
          \<and> (\<exists>salesperson inviter.
                find (\<lambda>s. int (sp_ID s) = 1) (tbl_salespersons db1) = Some salesperson
                \<and> find (\<lambda>s. sp_ID s = inv_InviterID (example_inv 1 2 ''INVB'' 1000))
                      (tbl_salespersons db1) = Some inviter
                \<and> sint (sp_Level inviter) < sint MaxAgentLevel
                \<and> sp_ParentID salesperson = None)
          \<longrightarrow> AcceptAgentInvitation depth None no_failure db1 accept_INVB_by_A 100 101
                = Some (Inl Acc_CircularReference, db1))" ..
  with guards show "\<exists>N. \<forall>depth \<ge> N.
      AcceptAgentInvitation depth None no_failure db1 accept_INVB_by_A 100 101
      = Some (Inl Acc_CircularReference, db1)"
    by blast
next
  have sid: "acc_SalespersonID accept_INVC_by_A = Some 1"
    by (simp add: accept_INVC_by_A_def)
  have cyc: "inv_InviterID (example_inv 2 3 ''INVC'' 1000) = nat 1
      \<or> descendant db1 (nat 1) (inv_InviterID (example_inv 2 3 ''INVC'' 1000))"
    using db1_descendants(2) by (simp add: example_inv_def)
  have guards: "acc_InviteCode accept_INVC_by_A \<noteq> []
      \<and> \<not> time_After 100 (inv_ExpiredAt (example_inv 2 3 ''INVC'' 1000))
      \<and> (\<exists>salesperson inviter.
            find (\<lambda>s. int (sp_ID s) = 1) (tbl_salespersons db1) = Some salesperson
            \<and> find (\<lambda>s. sp_ID s = inv_InviterID (example_inv 2 3 ''INVC'' 1000))
                  (tbl_salespersons db1) = Some inviter
            \<and> sint (sp_Level inviter) < sint MaxAgentLevel
            \<and> sp_ParentID salesperson = None)"
  proof (intro conjI exI)
    show "find (\<lambda>s. int (sp_ID s) = 1) (tbl_salespersons db1)
        = Some (example_sp 1 ''A'' None 0 1)"
      by (rule db1_find)
    show "find (\<lambda>s. sp_ID s = inv_InviterID (example_inv 2 3 ''INVC'' 1000))
        (tbl_salespersons db1) = Some (example_sp 3 ''C'' (Some 2) 2 0)"
      using db1_find(3) by (simp add: example_inv_def)
  qed (simp_all add: accept_INVC_by_A_def time_After_def example_inv_def example_sp_def
      MaxAgentLevel_def)
  have queries: "\<forall>x. descendant db1 x (inv_InviterID (example_inv 2 3 ''INVC'' 1000))
      \<and> (x = nat 1 \<or> descendant db1 (nat 1) x) \<longrightarrow> \<not> no_failure x"
    by (simp add: no_failure_def)
  from accept_rejects_cycle [where fault = None and now = 100 and now' = 101,
      OF db1_ids db1_invitations(2) sid cyc queries]
  obtain N where "\<forall>depth \<ge> N.
      (\<exists>e db'. AcceptAgentInvitation depth None no_failure db1 accept_INVC_by_A 100 101 = Some (Inl e, db')
          \<and> tbl_salespersons db' = tbl_salespersons db1)
      \<and> (acc_InviteCode accept_INVC_by_A \<noteq> []
          \<and> \<not> time_After 100 (inv_ExpiredAt (example_inv 2 3 ''INVC'' 1000))
          \<and> (\<exists>salesperson inviter.
                find (\<lambda>s. int (sp_ID s) = 1) (tbl_salespersons db1) = Some salesperson
                \<and> find (\<lambda>s. sp_ID s = inv_InviterID (example_inv 2 3 ''INVC'' 1000))
                      (tbl_salespersons db1) = Some inviter
                \<and> sint (sp_Level inviter) < sint MaxAgentLevel
                \<and> sp_ParentID salesperson = None)
          \<longrightarrow> AcceptAgentInvitation depth None no_failure db1 accept_INVC_by_A 100 101
                = Some (Inl Acc_CircularReference, db1))" ..
  with guards show "\<exists>N. \<forall>depth \<ge> N.
      AcceptAgentInvitation depth None no_failure db1 accept_INVC_by_A 100 101
      = Some (Inl Acc_CircularReference, db1)"
    by blast
qed

lemma db1_query_fails:
  "isCircularReference 1 fails_for_A db1 (inv_InviterID (example_inv 1 2 ''INVB'' 1000)) (nat 1)
     = Some False"
proof -
  have "isCircularReference (Suc 0) fails_for_A db1 2 1 = Some False"
    by (simp add: fails_for_A_def)
  then show ?thesis by (simp add: example_inv_def)
qed

lemma db1_cycle_descendant: "descendant db1_cycle 1 1"
proof -
  have "(sp_ID (example_sp 1 ''A'' (Some 2) 2 1), 2) \<in> parent_rel db1_cycle"
    by (rule parent_relI) (simp_all add: db1_cycle_def empty_db_def, simp add: example_sp_def)
  moreover have "(sp_ID (example_sp 2 ''B'' (Some 1) 1 2), 1) \<in> parent_rel db1_cycle"
    by (rule parent_relI) (simp_all add: db1_cycle_def empty_db_def, simp add: example_sp_def)
  ultimately have "(1, 2) \<in> parent_rel db1_cycle" and "(2, 1) \<in> parent_rel db1_cycle"
    by (simp_all add: example_sp_def)
  then show ?thesis
    unfolding descendant_def by (blast intro: trancl.intros)
qed

text \<open>
  Claim C1 needs the condition on the queries. In the chain A, B, C let A accept the
  invitation of B, who is below A, while the store fails the query for the children of
  A. The cycle check answers no, the acceptance succeeds, and afterwards A is below B and
  B below A: A is among its own descendants.
\<close>

theorem accept_stores_cycle_when_query_fails:
  "descendant db1 1 2
   \<and> AcceptAgentInvitation 1 None fails_for_A db1 accept_INVB_by_A 100 101
       = Some (Inr (2, ''B''), db1_cycle)
   \<and> descendant db1_cycle 1 1"
proof (intro conjI)
  show "descendant db1 1 2" by (rule db1_descendants)
  show "descendant db1_cycle 1 1" by (rule db1_cycle_descendant)
  have "acc_InviteCode accept_INVB_by_A \<noteq> []"
    and "acc_SalespersonID accept_INVB_by_A = Some 1"
    and "\<not> time_After 100 (inv_ExpiredAt (example_inv 1 2 ''INVB'' 1000))"
    and "sint (sp_Level (example_sp 2 ''B'' (Some 1) 1 1)) < sint MaxAgentLevel"
    and "sp_ParentID (example_sp 1 ''A'' None 0 1) = None"
    and "find (\<lambda>s. sp_ID s = inv_InviterID (example_inv 1 2 ''INVB'' 1000))
        (tbl_salespersons db1) = Some (example_sp 2 ''B'' (Some 1) 1 1)"
    using db1_find(2)
    by (simp_all add: accept_INVB_by_A_def example_inv_def time_After_def example_sp_def
        MaxAgentLevel_def)
  from Accept_commit [OF this(1) db1_invitations(1) this(3) this(2) db1_find(1) this(6)
      this(4) this(5) db1_query_fails, of 101]
  show "AcceptAgentInvitation 1 None fails_for_A db1 accept_INVB_by_A 100 101
       = Some (Inr (2, ''B''), db1_cycle)"
    by (simp add: db1_def db1_cycle_def empty_db_def example_sp_def example_inv_def
        update_where_def)
qed

lemma find_update_where_same:
  assumes "x \<in> set rows" and "P x" and "P k"
  shows "find P (update_where P (\<lambda>_. k) rows) = Some k"
proof -
  from assms(1,2) obtain y where "find P rows = Some y"
    by (cases "find P rows") (auto simp: find_None_iff)
  then show ?thesis
    using assms(3) by (intro find_update_where_const [where x = y]) (auto dest: find_SomeD)
qed

text \<open>
  Claim C5. Take an invitation that the invite code selects and that has not expired, an
  accepter and an inviter on record. If the inviter is below the maximal level, the
  accepter has no parent and the cycle check answers no, then, with a store that fails
  no statement, the acceptance succeeds and afterwards the accepter's row has the inviter
  as parent and the inviter's level plus one as level, the inviter's row has one child
  more, every other salesperson is as before, and the invitation is accepted with the
  time of acceptance and the accepter as invitee; with a store that fails any one
  statement of the transaction the handler reports the failure and the store is exactly
  as before. If the inviter is at the maximal level already, the acceptance fails and
  nothing is written.
\<close>

theorem accept_invitation_atomic:
  assumes code: "acc_InviteCode req \<noteq> []"
    and inv: "find (\<lambda>i. inv_InviteCode i = acc_InviteCode req \<and> inv_Status i = ''pending'')
           (tbl_salesperson_agent_invitations db) = Some invitation"
    and fresh: "\<not> time_After now (inv_ExpiredAt invitation)"
    and sid: "acc_SalespersonID req = Some salespersonID"
    and accepter: "find (\<lambda>s. int (sp_ID s) = salespersonID) (tbl_salespersons db)
           = Some salesperson"
    and inviter: "find (\<lambda>s. sp_ID s = inv_InviterID invitation) (tbl_salespersons db)
           = Some inviter"
  shows "(sint (sp_Level inviter) < sint MaxAgentLevel \<and> sp_ParentID salesperson = None
      \<and> isCircularReference depth fails db (inv_InviterID invitation) (nat salespersonID) = Some False
      \<longrightarrow>
        (\<exists>db'. AcceptAgentInvitation depth None fails db req now now'
                 = Some (Inr (sp_ID inviter, sp_Name inviter), db')
           \<and> find (\<lambda>s. sp_ID s = sp_ID salesperson) (tbl_salespersons db')
               = Some (salesperson\<lparr>sp_ParentID := Some (sp_ID inviter),
                                    sp_Level := sp_Level inviter + 1\<rparr>)
           \<and> sint (sp_Level inviter + 1) = sint (sp_Level inviter) + 1
           \<and> find (\<lambda>s. sp_ID s = sp_ID inviter) (tbl_salespersons db')
               = Some (inviter\<lparr>sp_ChildrenCount := sp_ChildrenCount inviter + 1\<rparr>)
           \<and> length (tbl_salespersons db') = length (tbl_salespersons db)
           \<and> (\<forall>i < length (tbl_salespersons db).
                 sp_ID (tbl_salespersons db ! i) \<noteq> sp_ID salesperson
                 \<and> sp_ID (tbl_salespersons db ! i) \<noteq> sp_ID inviter
                 \<longrightarrow> tbl_salespersons db' ! i = tbl_salespersons db ! i)
           \<and> find (\<lambda>i. inv_ID i = inv_ID invitation) (tbl_salesperson_agent_invitations db')
               = Some (invitation\<lparr>inv_Status := ''accepted'',
                                   inv_InviteeID := Some (sp_ID salesperson),
                                   inv_AcceptedAt := Some now'\<rparr>))
        \<and> (\<forall>step. AcceptAgentInvitation depth (Some step) fails db req now now'
                     = Some (Inl (Acc_StoreFailed step), db)))
    \<and> (sint MaxAgentLevel \<le> sint (sp_Level inviter) \<longrightarrow>
         AcceptAgentInvitation depth fault fails db req now now' = Some (Inl Acc_MaxLevelReached, db))"
proof (intro conjI impI)
  assume "sint MaxAgentLevel \<le> sint (sp_Level inviter)"
  with code inv fresh sid accepter inviter
  show "AcceptAgentInvitation depth fault fails db req now now' = Some (Inl Acc_MaxLevelReached, db)"
    by (rule Accept_max_level)
next
  assume ok: "sint (sp_Level inviter) < sint MaxAgentLevel \<and> sp_ParentID salesperson = None
      \<and> isCircularReference depth fails db (inv_InviterID invitation) (nat salespersonID) = Some False"
  then have level: "sint (sp_Level inviter) < sint MaxAgentLevel"
    and root: "sp_ParentID salesperson = None"
    and no_cycle: "isCircularReference depth fails db (inv_InviterID invitation) (nat salespersonID)
        = Some False"
    by simp_all
  show "\<forall>step. AcceptAgentInvitation depth (Some step) fails db req now now'
      = Some (Inl (Acc_StoreFailed step), db)"
    using code inv fresh sid accepter inviter level root no_cycle
    by (intro allI Accept_rollback)
  let ?a = "sp_ID salesperson" and ?i = "sp_ID inviter"
  let ?salesperson = "salesperson\<lparr>sp_ParentID := Some (inv_InviterID invitation),
      sp_Level := sp_Level inviter + 1\<rparr>"
  let ?invitation = "invitation\<lparr>inv_Status := ''accepted'',
      inv_InviteeID := Some (sp_ID salesperson), inv_AcceptedAt := Some now'\<rparr>"
  let ?rows1 = "update_where (\<lambda>s. sp_ID s = ?a) (\<lambda>_. ?salesperson) (tbl_salespersons db)"
  let ?rows2 = "update_where (\<lambda>s. sp_ID s = ?i)
      (\<lambda>s. s\<lparr>sp_ChildrenCount := sp_ChildrenCount s + 1\<rparr>) ?rows1"
  let ?invs = "update_where (\<lambda>i. inv_ID i = inv_ID invitation) (\<lambda>_. ?invitation)
      (tbl_salesperson_agent_invitations db)"
  let ?db = "db\<lparr>tbl_salespersons := ?rows2, tbl_salesperson_agent_invitations := ?invs\<rparr>"
  have run: "AcceptAgentInvitation depth None fails db req now now'
      = Some (Inr (sp_ID inviter, sp_Name inviter), ?db)"
    using code inv fresh sid accepter inviter level root no_cycle by (rule Accept_commit)
  from find_SomeD [OF accepter] have a_row: "salesperson \<in> set (tbl_salespersons db)"
    and a_id: "int ?a = salespersonID" by simp_all
  from find_SomeD [OF inviter] have i_row: "inviter \<in> set (tbl_salespersons db)"
    and i_id: "?i = inv_InviterID invitation" by simp_all
  from find_SomeD [OF inv] have inv_row: "invitation \<in> set (tbl_salesperson_agent_invitations db)"
    by simp
  from isCircularReference_neq [OF no_cycle] a_id i_id have neq: "?i \<noteq> ?a"
    by auto
  have find_a: "find (\<lambda>s. sp_ID s = ?a) ?rows2 = Some ?salesperson"
  proof -
    have "find (\<lambda>s. sp_ID s = ?a) ?rows2 = find (\<lambda>s. sp_ID s = ?a) ?rows1"
      using neq by (intro find_update_where_other) simp_all
    also have "\<dots> = Some ?salesperson"
      using a_row by (rule find_update_where_same) simp_all
    finally show ?thesis .
  qed
  have find_i: "find (\<lambda>s. sp_ID s = ?i) ?rows2
      = Some (inviter\<lparr>sp_ChildrenCount := sp_ChildrenCount inviter + 1\<rparr>)"
  proof -
    have "find (\<lambda>s. sp_ID s = ?i) ?rows1 = find (\<lambda>s. sp_ID s = ?i) (tbl_salespersons db)"
      using neq by (intro find_update_where_other) simp_all
    also have "\<dots> = Some inviter"
      using inviter by (simp add: i_id)
    finally have "find (\<lambda>s. sp_ID s = ?i) ?rows1 = Some inviter" .
    from find_update_where [OF this, of "\<lambda>s. s\<lparr>sp_ChildrenCount := sp_ChildrenCount s + 1\<rparr>"
        "\<lambda>s. sp_ID s = ?i"]
    show ?thesis by simp
  qed
  have find_inv: "find (\<lambda>i. inv_ID i = inv_ID invitation) ?invs = Some ?invitation"
    using inv_row by (rule find_update_where_same) simp_all
  have others: "\<forall>i < length (tbl_salespersons db).
      sp_ID (tbl_salespersons db ! i) \<noteq> ?a \<and> sp_ID (tbl_salespersons db ! i) \<noteq> ?i
      \<longrightarrow> ?rows2 ! i = tbl_salespersons db ! i"
    by (simp add: nth_update_where length_update_where)
  show "\<exists>db'. AcceptAgentInvitation depth None fails db req now now'
                 = Some (Inr (sp_ID inviter, sp_Name inviter), db')
           \<and> find (\<lambda>s. sp_ID s = sp_ID salesperson) (tbl_salespersons db')
               = Some (salesperson\<lparr>sp_ParentID := Some (sp_ID inviter),
                                    sp_Level := sp_Level inviter + 1\<rparr>)
           \<and> sint (sp_Level inviter + 1) = sint (sp_Level inviter) + 1
           \<and> find (\<lambda>s. sp_ID s = sp_ID inviter) (tbl_salespersons db')
               = Some (inviter\<lparr>sp_ChildrenCount := sp_ChildrenCount inviter + 1\<rparr>)
           \<and> length (tbl_salespersons db') = length (tbl_salespersons db)
           \<and> (\<forall>i < length (tbl_salespersons db).
                 sp_ID (tbl_salespersons db ! i) \<noteq> sp_ID salesperson
                 \<and> sp_ID (tbl_salespersons db ! i) \<noteq> sp_ID inviter
                 \<longrightarrow> tbl_salespersons db' ! i = tbl_salespersons db ! i)
           \<and> find (\<lambda>i. inv_ID i = inv_ID invitation) (tbl_salesperson_agent_invitations db')
               = Some (invitation\<lparr>inv_Status := ''accepted'',
                                   inv_InviteeID := Some (sp_ID salesperson),
                                   inv_AcceptedAt := Some now'\<rparr>)"
  proof (intro exI [of _ ?db] conjI)
    show "AcceptAgentInvitation depth None fails db req now now'
        = Some (Inr (sp_ID inviter, sp_Name inviter), ?db)" by (rule run)
    show "find (\<lambda>s. sp_ID s = ?a) (tbl_salespersons ?db)
        = Some (salesperson\<lparr>sp_ParentID := Some ?i, sp_Level := sp_Level inviter + 1\<rparr>)"
      using find_a by (simp add: i_id)
    show "sint (sp_Level inviter + 1) = sint (sp_Level inviter) + 1"
      using level by (rule sint_level_Suc)
    show "find (\<lambda>s. sp_ID s = ?i) (tbl_salespersons ?db)
        = Some (inviter\<lparr>sp_ChildrenCount := sp_ChildrenCount inviter + 1\<rparr>)"
      using find_i by simp
    show "length (tbl_salespersons ?db) = length (tbl_salespersons db)"
      by (simp add: length_update_where)
    show "\<forall>i < length (tbl_salespersons db).
        sp_ID (tbl_salespersons db ! i) \<noteq> ?a \<and> sp_ID (tbl_salespersons db ! i) \<noteq> ?i
        \<longrightarrow> tbl_salespersons ?db ! i = tbl_salespersons db ! i"
      using others by simp
    show "find (\<lambda>i. inv_ID i = inv_ID invitation) (tbl_salesperson_agent_invitations ?db)
        = Some ?invitation"
      using find_inv by simp
  qed
qed

lemma db5_tables:
  "tbl_salespersons db5 = [example_sp 1 ''X'' None 0 0, example_sp 2 ''Y'' None 0 0,
                          example_sp 3 ''Z'' (Some 9) 5 0]"
  "tbl_salesperson_agent_invitations db5 = [example_inv 1 1 ''INVX'' 1000,
                                            example_inv 2 3 ''INVZ'' 1000]"
  by (simp_all add: db5_def empty_db_def)

lemma db5_find:
  "find (\<lambda>s. int (sp_ID s) = 2) (tbl_salespersons db5) = Some (example_sp 2 ''Y'' None 0 0)"
  "find (\<lambda>s. sp_ID s = inv_InviterID (example_inv 1 1 ''INVX'' 1000)) (tbl_salespersons db5)
     = Some (example_sp 1 ''X'' None 0 0)"
  "find (\<lambda>s. sp_ID s = inv_InviterID (example_inv 2 3 ''INVZ'' 1000)) (tbl_salespersons db5)
     = Some (example_sp 3 ''Z'' (Some 9) 5 0)"
  by (simp_all add: db5_tables example_sp_def example_inv_def)

lemma db5_invitations:
  "find (\<lambda>i. inv_InviteCode i = acc_InviteCode accept_INVX_by_Y \<and> inv_Status i = ''pending'')
     (tbl_salesperson_agent_invitations db5) = Some (example_inv 1 1 ''INVX'' 1000)"
  "find (\<lambda>i. inv_InviteCode i = acc_InviteCode accept_INVZ_by_Y \<and> inv_Status i = ''pending'')
     (tbl_salesperson_agent_invitations db5) = Some (example_inv 2 3 ''INVZ'' 1000)"
  by (simp_all add: db5_tables example_inv_def accept_INVX_by_Y_def accept_INVZ_by_Y_def)

lemma db5_no_cycle:
  "isCircularReference 1 no_failure db5 (inv_InviterID (example_inv 1 1 ''INVX'' 1000)) (nat 2) = Some False"
proof -
  have "isCircularReference (Suc 0) no_failure db5 1 2 = Some False"
    by (simp add: db5_tables example_sp_def)
  then show ?thesis by (simp add: example_inv_def)
qed

theorem accept_invitation_atomic_witness:
  "(\<exists>db'. AcceptAgentInvitation 1 None no_failure db5 accept_INVX_by_Y 100 101 = Some (Inr (1, ''X''), db')
      \<and> find (\<lambda>s. sp_ID s = 2) (tbl_salespersons db') = Some (example_sp 2 ''Y'' (Some 1) 1 0)
      \<and> find (\<lambda>s. sp_ID s = 1) (tbl_salespersons db') = Some (example_sp 1 ''X'' None 0 1)
      \<and> find (\<lambda>i. inv_ID i = 1) (tbl_salesperson_agent_invitations db')
          = Some ((example_inv 1 1 ''INVX'' 1000)
               \<lparr>inv_Status := ''accepted'', inv_InviteeID := Some 2, inv_AcceptedAt := Some 101\<rparr>))
   \<and> AcceptAgentInvitation 1 (Some Save_invitation) no_failure db5 accept_INVX_by_Y 100 101
       = Some (Inl (Acc_StoreFailed Save_invitation), db5)
   \<and> AcceptAgentInvitation 1 None no_failure db5 accept_INVZ_by_Y 100 101
       = Some (Inl Acc_MaxLevelReached, db5)"
proof -
  have code: "acc_InviteCode accept_INVX_by_Y \<noteq> []" "acc_InviteCode accept_INVZ_by_Y \<noteq> []"
    and sid: "acc_SalespersonID accept_INVX_by_Y = Some 2"
      "acc_SalespersonID accept_INVZ_by_Y = Some 2"
    by (simp_all add: accept_INVX_by_Y_def accept_INVZ_by_Y_def)
  have fresh: "\<not> time_After 100 (inv_ExpiredAt (example_inv 1 1 ''INVX'' 1000))"
    "\<not> time_After 100 (inv_ExpiredAt (example_inv 2 3 ''INVZ'' 1000))"
    by (simp_all add: example_inv_def time_After_def)
  note X = accept_invitation_atomic [where depth = 1 and now' = 101 and fault = None,
      OF code(1) db5_invitations(1) fresh(1) sid(1) db5_find(1) db5_find(2),
      THEN conjunct1, THEN mp]
  note Z = accept_invitation_atomic [where depth = 1 and now' = 101 and fault = None,
      OF code(2) db5_invitations(2) fresh(2) sid(2) db5_find(1) db5_find(3),
      THEN conjunct2, THEN mp]
  have "sint (sp_Level (example_sp 1 ''X'' None 0 0)) < sint MaxAgentLevel
      \<and> sp_ParentID (example_sp 2 ''Y'' None 0 0) = None
      \<and> isCircularReference 1 no_failure db5 (inv_InviterID (example_inv 1 1 ''INVX'' 1000)) (nat 2)
          = Some False"
    using db5_no_cycle by (simp add: example_sp_def MaxAgentLevel_def)
  from X [OF this] obtain db' where
    run: "AcceptAgentInvitation 1 None no_failure db5 accept_INVX_by_Y 100 101
        = Some (Inr (sp_ID (example_sp 1 ''X'' None 0 0), sp_Name (example_sp 1 ''X'' None 0 0)), db')"
    and y: "find (\<lambda>s. sp_ID s = sp_ID (example_sp 2 ''Y'' None 0 0)) (tbl_salespersons db')
        = Some ((example_sp 2 ''Y'' None 0 0)
            \<lparr>sp_ParentID := Some (sp_ID (example_sp 1 ''X'' None 0 0)),
             sp_Level := sp_Level (example_sp 1 ''X'' None 0 0) + 1\<rparr>)"
    and x: "find (\<lambda>s. sp_ID s = sp_ID (example_sp 1 ''X'' None 0 0)) (tbl_salespersons db')
        = Some ((example_sp 1 ''X'' None 0 0)
            \<lparr>sp_ChildrenCount := sp_ChildrenCount (example_sp 1 ''X'' None 0 0) + 1\<rparr>)"
    and i: "find (\<lambda>i. inv_ID i = inv_ID (example_inv 1 1 ''INVX'' 1000))
          (tbl_salesperson_agent_invitations db')
        = Some ((example_inv 1 1 ''INVX'' 1000)
            \<lparr>inv_Status := ''accepted'',
             inv_InviteeID := Some (sp_ID (example_sp 2 ''Y'' None 0 0)),
             inv_AcceptedAt := Some 101\<rparr>)"
    and failed: "\<forall>step. AcceptAgentInvitation 1 (Some step) no_failure db5 accept_INVX_by_Y 100 101
        = Some (Inl (Acc_StoreFailed step), db5)"
    by blast
  have "sint MaxAgentLevel \<le> sint (sp_Level (example_sp 3 ''Z'' (Some 9) 5 0))"
    by (simp add: example_sp_def MaxAgentLevel_def)
  from Z [OF this] have max: "AcceptAgentInvitation 1 None no_failure db5 accept_INVZ_by_Y 100 101
       = Some (Inl Acc_MaxLevelReached, db5)" .
  show ?thesis
  proof (intro conjI exI [of _ db'])
    show "AcceptAgentInvitation 1 None no_failure db5 accept_INVX_by_Y 100 101 = Some (Inr (1, ''X''), db')"
      using run by (simp add: example_sp_def)
    show "find (\<lambda>s. sp_ID s = 2) (tbl_salespersons db') = Some (example_sp 2 ''Y'' (Some 1) 1 0)"
      using y by (simp add: example_sp_def)
    show "find (\<lambda>s. sp_ID s = 1) (tbl_salespersons db') = Some (example_sp 1 ''X'' None 0 1)"
      using x by (simp add: example_sp_def)
    show "find (\<lambda>i. inv_ID i = 1) (tbl_salesperson_agent_invitations db')
          = Some ((example_inv 1 1 ''INVX'' 1000)
               \<lparr>inv_Status := ''accepted'', inv_InviteeID := Some 2, inv_AcceptedAt := Some 101\<rparr>)"
      using i by (simp add: example_sp_def example_inv_def)
    show "AcceptAgentInvitation 1 (Some Save_invitation) no_failure db5 accept_INVX_by_Y 100 101
       = Some (Inl (Acc_StoreFailed Save_invitation), db5)"
      using failed by blast
    show "AcceptAgentInvitation 1 None no_failure db5 accept_INVZ_by_Y 100 101
       = Some (Inl Acc_MaxLevelReached, db5)"
      by (rule max)
  qed
qed

lemma set_update_where:
  "set (update_where P f rows) \<subseteq> f ` {r \<in> set rows. P r} \<union> {r \<in> set rows. \<not> P r}"
  by (auto simp: update_where_def)

lemma Accept_success_rows:
  fixes db :: "'f database"
  assumes "AcceptAgentInvitation depth fault fails db req now now' = Some (Inr r, db')"
  obtains invitation :: SalespersonAgentInvitation and salespersonID
    and salesperson inviter :: "'f Salesperson" where
    "find (\<lambda>s. int (sp_ID s) = salespersonID) (tbl_salespersons db) = Some salesperson"
    and "isCircularReference depth fails db (inv_InviterID invitation) (nat salespersonID) = Some False"
    and "tbl_salespersons db' =
        update_where (\<lambda>s. sp_ID s = sp_ID inviter)
          (\<lambda>s. s\<lparr>sp_ChildrenCount := sp_ChildrenCount s + 1\<rparr>)
          (update_where (\<lambda>s. sp_ID s = sp_ID salesperson)
             (\<lambda>_. salesperson\<lparr>sp_ParentID := Some (inv_InviterID invitation),
                               sp_Level := sp_Level inviter + 1\<rparr>)
             (tbl_salespersons db))"
  using assms
  by (auto simp: AcceptAgentInvitation_def Let_def split: if_splits option.splits bool.splits)

lemma Accept_no_own_parent:
  fixes db :: "'f database"
  assumes "\<forall>s \<in> set (tbl_salespersons db). sp_ParentID s \<noteq> Some (sp_ID s)"
    and "AcceptAgentInvitation depth fault fails db req now now' = Some (out, db')"
  shows "\<forall>s \<in> set (tbl_salespersons db'). sp_ParentID s \<noteq> Some (sp_ID s)"
proof (cases out)
  case (Inl e)
  with assms show ?thesis
    by (simp add: Accept_error_keeps_salespersons)
next
  case (Inr r)
  show ?thesis
  proof (rule Accept_success_rows [OF assms(2) [unfolded Inr]])
    fix invitation :: SalespersonAgentInvitation and salespersonID
      and salesperson inviter :: "'f Salesperson"
    let ?salesperson = "salesperson\<lparr>sp_ParentID := Some (inv_InviterID invitation),
        sp_Level := sp_Level inviter + 1\<rparr>"
    let ?rows1 = "update_where (\<lambda>s. sp_ID s = sp_ID salesperson) (\<lambda>_. ?salesperson)
        (tbl_salespersons db)"
    assume accepter: "find (\<lambda>s. int (sp_ID s) = salespersonID) (tbl_salespersons db)
        = Some salesperson"
      and no_cycle: "isCircularReference depth fails db (inv_InviterID invitation) (nat salespersonID)
        = Some False"
      and rows: "tbl_salespersons db' =
        update_where (\<lambda>s. sp_ID s = sp_ID inviter)
          (\<lambda>s. s\<lparr>sp_ChildrenCount := sp_ChildrenCount s + 1\<rparr>) ?rows1"
    from find_SomeD [OF accepter] have "sp_ID salesperson = nat salespersonID" by auto
    with isCircularReference_neq [OF no_cycle]
    have "sp_ParentID ?salesperson \<noteq> Some (sp_ID ?salesperson)" by simp
    with assms(1) set_update_where [of "\<lambda>s. sp_ID s = sp_ID salesperson" "\<lambda>_. ?salesperson"
        "tbl_salespersons db"]
    have "\<forall>s \<in> set ?rows1. sp_ParentID s \<noteq> Some (sp_ID s)" by blast
    with set_update_where [of "\<lambda>s. sp_ID s = sp_ID inviter"
        "\<lambda>s. s\<lparr>sp_ChildrenCount := sp_ChildrenCount s + 1\<rparr>" ?rows1]
    show ?thesis unfolding rows by fastforce
  qed
qed

text \<open>
  Claim C10. The cycle check answers yes at once, with no traversal, when the potential
  parent is the accepter. So accepting an invitation of one's own fails, whatever else
  is on record, and the table of salespersons stays as it was. And no outcome of an
  acceptance makes a salesperson its own parent: if no row names itself as parent before,
  none does afterwards.
\<close>

theorem accept_own_invitation_fails:
  "isCircularReference (Suc depth) fails db x x = Some True
   \<and> (find (\<lambda>i. inv_InviteCode i = acc_InviteCode req \<and> inv_Status i = ''pending'')
         (tbl_salesperson_agent_invitations db) = Some invitation
       \<and> acc_SalespersonID req = Some (int (inv_InviterID invitation))
       \<longrightarrow> (\<exists>e db'. AcceptAgentInvitation (Suc depth) fault fails db req now now' = Some (Inl e, db')
              \<and> tbl_salespersons db' = tbl_salespersons db))
   \<and> ((\<forall>s \<in> set (tbl_salespersons db). sp_ParentID s \<noteq> Some (sp_ID s))
       \<and> AcceptAgentInvitation depth' fault fails db req now now' = Some (out, db'')
       \<longrightarrow> (\<forall>s \<in> set (tbl_salespersons db''). sp_ParentID s \<noteq> Some (sp_ID s)))"
proof (intro conjI impI)
  show "isCircularReference (Suc depth) fails db x x = Some True"
    by (rule isCircularReference_self)
next
  assume "(\<forall>s \<in> set (tbl_salespersons db). sp_ParentID s \<noteq> Some (sp_ID s))
      \<and> AcceptAgentInvitation depth' fault fails db req now now' = Some (out, db'')"
  then show "\<forall>s \<in> set (tbl_salespersons db''). sp_ParentID s \<noteq> Some (sp_ID s)"
    using Accept_no_own_parent by blast
next
  let ?run = "AcceptAgentInvitation (Suc depth) fault fails db req now now'"
  assume own: "find (\<lambda>i. inv_InviteCode i = acc_InviteCode req \<and> inv_Status i = ''pending'')
         (tbl_salesperson_agent_invitations db) = Some invitation
       \<and> acc_SalespersonID req = Some (int (inv_InviterID invitation))"
  have check: "isCircularReference (Suc depth) fails db (inv_InviterID invitation)
      (nat (int (inv_InviterID invitation))) = Some True"
    by simp
  have "?run \<noteq> None"
  proof
    assume "?run = None"
    from Accept_None_D [OF this] own check show False by auto
  qed
  then obtain res db' where run: "?run = Some (res, db')" by auto
  have "\<exists>e. res = Inl e"
  proof (cases res)
    case (Inr r)
    from Accept_success_D [OF run [unfolded Inr]] own check show ?thesis by auto
  qed simp
  then obtain e where "res = Inl e" ..
  with run Accept_error_keeps_salespersons [of "Suc depth" fault fails db req now now' e db']
  show "\<exists>e db'. ?run = Some (Inl e, db') \<and> tbl_salespersons db' = tbl_salespersons db"
    by blast
qed

lemma db5_own_invitation:
  "find (\<lambda>i. inv_InviteCode i = acc_InviteCode accept_INVX_by_X \<and> inv_Status i = ''pending'')
     (tbl_salesperson_agent_invitations db5) = Some (example_inv 1 1 ''INVX'' 1000)
   \<and> acc_SalespersonID accept_INVX_by_X = Some (int (inv_InviterID (example_inv 1 1 ''INVX'' 1000)))"
  by (simp add: db5_tables example_inv_def accept_INVX_by_X_def)

lemma db5_accept_INVX_by_Y:
  "\<exists>db'. AcceptAgentInvitation 1 None no_failure db5 accept_INVX_by_Y 100 101 = Some (Inr (1, ''X''), db')"
proof -
  have "acc_InviteCode accept_INVX_by_Y \<noteq> []"
    and "acc_SalespersonID accept_INVX_by_Y = Some 2"
    and "\<not> time_After 100 (inv_ExpiredAt (example_inv 1 1 ''INVX'' 1000))"
    and "sint (sp_Level (example_sp 1 ''X'' None 0 0)) < sint MaxAgentLevel"
    and "sp_ParentID (example_sp 2 ''Y'' None 0 0) = None"
    by (simp_all add: accept_INVX_by_Y_def example_inv_def time_After_def example_sp_def
        MaxAgentLevel_def)
  from Accept_commit [OF this(1) db5_invitations(1) this(3) this(2) db5_find(1) db5_find(2)
      this(4) this(5) db5_no_cycle, of 101]
  show ?thesis by (simp add: example_sp_def)
qed

lemma db5_no_own_parent: "\<forall>s \<in> set (tbl_salespersons db5). sp_ParentID s \<noteq> Some (sp_ID s)"
  by (simp add: db5_tables example_sp_def)

theorem accept_own_invitation_fails_witness:
  "isCircularReference 1 no_failure db5 1 1 = Some True
   \<and> (\<exists>e db'. AcceptAgentInvitation 1 None no_failure db5 accept_INVX_by_X 100 101 = Some (Inl e, db')
        \<and> tbl_salespersons db' = tbl_salespersons db5)
   \<and> (\<exists>db'. AcceptAgentInvitation 1 None no_failure db5 accept_INVX_by_Y 100 101
               = Some (Inr (1, ''X''), db')
        \<and> list_all (\<lambda>s. sp_ParentID s \<noteq> Some (sp_ID s)) (tbl_salespersons db'))"
proof -
  note own = accept_own_invitation_fails [where depth = 0 and db = db5 and x = 1
      and req = accept_INVX_by_X and invitation = "example_inv 1 1 ''INVX'' 1000"
      and fault = None and now = 100 and now' = 101]
  note other = accept_own_invitation_fails [where depth = 0 and db = db5 and x = 1
      and req = accept_INVX_by_Y and fault = None and now = 100 and now' = 101
      and depth' = 1, THEN conjunct2, THEN conjunct2, THEN mp, OF conjI, OF db5_no_own_parent]
  from db5_accept_INVX_by_Y obtain db' where
    run: "AcceptAgentInvitation 1 None no_failure db5 accept_INVX_by_Y 100 101 = Some (Inr (1, ''X''), db')"
    by blast
  from other [OF run] have "list_all (\<lambda>s. sp_ParentID s \<noteq> Some (sp_ID s)) (tbl_salespersons db')"
    by (simp add: list_all_iff)
  with run own db5_own_invitation show ?thesis by auto
qed

section \<open>Properties of creating an invitation\<close>

text \<open>The condition that the query of \<open>CreateAgentInvitation\<close> puts on a row.\<close>

lemma existing_query_iff:
  "existing_query email phone i =
     ((inv_Status i = ''pending'' \<and> (email = [] \<or> inv_Email i = email))
      \<or> (phone \<noteq> [] \<and> inv_Phone i = phone))"
  by (auto simp: existing_query_def Let_def)

text \<open>
  A request with an e-mail address only is refused exactly when an invitation is pending
  for that address.
\<close>

lemma existing_query_email_only:
  "email \<noteq> [] \<Longrightarrow>
   (find (existing_query email []) rows \<noteq> None)
     = list_ex (\<lambda>i. inv_Status i = ''pending'' \<and> inv_Email i = email) rows"
  by (auto simp: find_None_iff list_ex_iff existing_query_iff)

text \<open>What a successful call stores: a pending invitation that expires seven days later.\<close>

lemma CreateAgentInvitation_success:
  assumes "CreateAgentInvitation inviteCode db request now = (Inr r, db')"
  shows "\<exists>invitation. tbl_salesperson_agent_invitations db'
        = tbl_salesperson_agent_invitations db @ [invitation]
      \<and> inv_Status invitation = ''pending''
      \<and> inv_ExpiredAt invitation = now + 7 * 24 * 3600000000000
      \<and> inv_InviteCode invitation = inviteCode
      \<and> inv_Email invitation = ci_Email request \<and> inv_Phone invitation = ci_Phone request
      \<and> (ci_Email request \<noteq> [] \<or> ci_Phone request \<noteq> [])
      \<and> (ci_Email request \<noteq> [] \<longrightarrow> emailRegex_match (ci_Email request))
      \<and> (ci_Phone request \<noteq> [] \<longrightarrow> phoneRegex_match (ci_Phone request))"
  using assms
  by (auto simp: CreateAgentInvitation_def Let_def AddDate_7_days_def
      split: option.splits if_splits)

lemma db8_invitations:
  "tbl_salesperson_agent_invitations db8 =
     [example_inv 1 1 ''INV00001'' 1000,
      (example_inv 2 1 ''INV00002'' 500)
        \<lparr>inv_Email := [], inv_Phone := ''13900139000'', inv_Status := ''accepted''\<rparr>]"
  "tbl_salespersons db8 = [example_sp 1 ''X'' None 0 0]"
  by (simp_all add: db8_def empty_db_def)

lemma phone_examples:
  "phoneRegex_match ''13800138000''" "phoneRegex_match ''13900139000''"
  by (simp_all add: phoneRegex_match_def is_digit_def)

lemma email_example: "emailRegex_match ''friend@example.com''"
  by (simp add: emailRegex_match_def Let_def is_letter_def is_digit_def)

text \<open>
  Claim C8, at two requests of salesperson 1. The first names a phone number that no
  invitation on record carries; the query reads \<open>status = pending OR phone = ...\<close>, finds
  the pending invitation sent to an e-mail address, and the request is refused. The
  second names an e-mail address not on record and the phone number of an invitation
  accepted long ago; the query reads \<open>status = pending AND email = ... OR phone = ...\<close>,
  finds the accepted invitation, and the request is refused. In neither case is an
  invitation pending for the contact of the request.
\<close>

theorem CreateAgentInvitation_refuses_other_contact:
  "CreateAgentInvitation ''INV00003'' db8 invite_by_phone 100 = (Inl CI_PendingExists, db8)
   \<and> \<not> pending_for_contact db8 invite_by_phone
   \<and> CreateAgentInvitation ''INV00003'' db8 invite_again 100 = (Inl CI_PendingExists, db8)
   \<and> \<not> pending_for_contact db8 invite_again"
proof (intro conjI)
  show "CreateAgentInvitation ''INV00003'' db8 invite_by_phone 100 = (Inl CI_PendingExists, db8)"
    by (simp add: CreateAgentInvitation_def invite_by_phone_def db8_invitations phone_examples
        existing_query_iff example_inv_def example_sp_def)
  show "CreateAgentInvitation ''INV00003'' db8 invite_again 100 = (Inl CI_PendingExists, db8)"
    by (simp add: CreateAgentInvitation_def invite_again_def db8_invitations phone_examples
        email_example existing_query_iff example_inv_def example_sp_def)
  show "\<not> pending_for_contact db8 invite_by_phone"
    by (simp add: pending_for_contact_def invite_by_phone_def db8_invitations example_inv_def)
  show "\<not> pending_for_contact db8 invite_again"
    by (simp add: pending_for_contact_def invite_again_def db8_invitations example_inv_def)
qed

theorem CreateAgentInvitation_refuses_other_contact_witness:
  "fst (CreateAgentInvitation ''INV00003'' db8 invite_by_phone 100) = Inl CI_PendingExists
   \<and> list_all (\<lambda>i. inv_Phone i \<noteq> ci_Phone invite_by_phone)
        (tbl_salesperson_agent_invitations db8)
   \<and> fst (CreateAgentInvitation ''INV00003'' db8 invite_again 100) = Inl CI_PendingExists
   \<and> list_all (\<lambda>i. inv_Status i = ''pending'' \<longrightarrow> inv_Phone i \<noteq> ci_Phone invite_again
                     \<and> inv_Email i \<noteq> ci_Email invite_again)
        (tbl_salesperson_agent_invitations db8)"
  using CreateAgentInvitation_refuses_other_contact
  by (simp add: db8_invitations example_inv_def invite_by_phone_def invite_again_def)

section \<open>Properties of the commission cascade\<close>

lemma level_direct: "(currentLevel - 1 = (l :: 64 word)) = (currentLevel = l + 1)"
  by auto

lemma commissionRate_spec: "commissionRate F currentLevel A = spec_rate F currentLevel A"
  by (simp add: commissionRate_def spec_rate_def Let_def level_direct)

lemma upline_None: "upline db n None = []"
  by (cases n) simp_all

lemma length_upline: "length (upline db n p) \<le> n"
proof (induction n arbitrary: p)
  case 0
  show ?case by simp
next
  case (Suc n)
  show ?case
  proof (cases p)
    case None
    then show ?thesis by simp
  next
    case (Some parentID)
    then show ?thesis
      using Suc.IH by (simp split: option.splits)
  qed
qed

lemma find_hierarchy:
  "map hierarchy_of rows' = map hierarchy_of rows \<Longrightarrow>
   map_option hierarchy_of (find (\<lambda>s. sp_ID s = n) rows')
     = map_option hierarchy_of (find (\<lambda>s. sp_ID s = n) rows)"
proof (induction rows arbitrary: rows')
  case Nil
  then show ?case by simp
next
  case (Cons r rows)
  then obtain r' rest where rows': "rows' = r' # rest" by (cases rows') auto
  with Cons.prems have same: "hierarchy_of r' = hierarchy_of r"
    and "map hierarchy_of rest = map hierarchy_of rows" by simp_all
  from same have "sp_ID r' = sp_ID r" by (simp add: hierarchy_of_def)
  with Cons.IH [OF \<open>map hierarchy_of rest = map hierarchy_of rows\<close>] same show ?case
    by (simp add: rows')
qed

lemma upline_hierarchy:
  assumes "map hierarchy_of (tbl_salespersons db') = map hierarchy_of (tbl_salespersons db)"
  shows "map hierarchy_of (upline db' n p) = map hierarchy_of (upline db n p)"
proof (induction n arbitrary: p)
  case 0
  show ?case by simp
next
  case (Suc n)
  show ?case
  proof (cases p)
    case None
    then show ?thesis by simp
  next
    case (Some parentID)
    show ?thesis
    proof (cases "find (\<lambda>s. sp_ID s = parentID) (tbl_salespersons db)")
      case None
      with find_hierarchy [OF assms, of parentID]
      have "find (\<lambda>s. sp_ID s = parentID) (tbl_salespersons db') = None" by simp
      with None show ?thesis by (simp add: Some)
    next
      case found: (Some A)
      with find_hierarchy [OF assms, of parentID] obtain A' where
        found': "find (\<lambda>s. sp_ID s = parentID) (tbl_salespersons db') = Some A'"
        and same: "hierarchy_of A' = hierarchy_of A" by auto
      from same have "sp_ParentID A' = sp_ParentID A" by (simp add: hierarchy_of_def)
      with Suc.IH [of "sp_ParentID A"] same show ?thesis
        by (simp add: Some found found')
    qed
  qed
qed

lemma spec_cascade_hierarchy:
  "map hierarchy_of as' = map hierarchy_of as \<Longrightarrow>
   spec_cascade F sale below lvl as' = spec_cascade F sale below lvl as"
proof (induction as arbitrary: as' below lvl)
  case Nil
  then show ?case by simp
next
  case (Cons A as)
  then obtain A' rest where as': "as' = A' # rest" by (cases as') auto
  with Cons.prems have same: "hierarchy_of A' = hierarchy_of A"
    and rest: "map hierarchy_of rest = map hierarchy_of as" by simp_all
  from same have "sp_ID A' = sp_ID A" "sp_Level A' = sp_Level A"
    "sp_ParentCommissionRate A' = sp_ParentCommissionRate A"
    by (simp_all add: hierarchy_of_def)
  with Cons.IH [OF rest] show ?case
    by (simp add: as' spec_rate_def Let_def)
qed

lemma hierarchy_update_total:
  "map hierarchy_of (update_where P (\<lambda>s. s\<lparr>sp_TotalCommission := g s\<rparr>) rows)
     = map hierarchy_of rows"
  by (simp add: update_where_def hierarchy_of_def)

text \<open>
  The levels are Go \<^verbatim>\<open>int\<close>s and so is their arithmetic in the rate. As long as the two
  levels are of a magnitude below \<open>2^62\<close>, it is the arithmetic of the integers.
\<close>

lemma spec_rate_integers:
  fixes currentLevel l :: "64 word"
  assumes "\<bar>sint currentLevel\<bar> < 2 ^ 62" and "\<bar>sint l\<bar> < 2 ^ 62"
  shows "(currentLevel = l + 1) = (sint currentLevel = sint l + 1)"
    and "sint (currentLevel - l - 1) = sint currentLevel - sint l - 1"
proof -
  have one: "sint (l + 1) = sint l + 1"
  proof -
    from assms(2) have "signed_take_bit 63 (sint l + 1) = sint l + 1"
      by (intro signed_take_bit_int_eq_self) simp_all
    then show ?thesis by (simp add: sint_word_ariths)
  qed
  show "(currentLevel = l + 1) = (sint currentLevel = sint l + 1)"
    using one by (metis signed_word_eqI)
  have "sint (currentLevel - l) = sint currentLevel - sint l"
  proof -
    from assms have "signed_take_bit 63 (sint currentLevel - sint l) = sint currentLevel - sint l"
      by (intro signed_take_bit_int_eq_self) simp_all
    then show ?thesis by (simp add: sint_word_ariths)
  qed
  moreover have "sint (currentLevel - l - 1) = sint (currentLevel - l) - 1"
  proof -
    from assms \<open>sint (currentLevel - l) = sint currentLevel - sint l\<close>
    have "signed_take_bit 63 (sint (currentLevel - l) - 1) = sint (currentLevel - l) - 1"
      by (intro signed_take_bit_int_eq_self) simp_all
    then show ?thesis by (simp add: sint_word_ariths)
  qed
  ultimately show "sint (currentLevel - l - 1) = sint currentLevel - sint l - 1"
    by simp
qed

text \<open>
  A successful run of the loop appends the rows that the specification owes along the
  upline, adds the amount of each row to the total of its ancestor, and changes no_rows
  else.
\<close>

lemma cascade_rows:
  fixes tx tx' :: "'f database"
  assumes "cascade F sale tx cur par lvl processed = Inr tx'"
  shows "\<exists>new.
      tbl_salesperson_agent_commissions tx' = tbl_salesperson_agent_commissions tx @ new
    \<and> map (\<lambda>r. r\<lparr>ac_ID := 0\<rparr>) new
        = spec_cascade F sale cur lvl (upline tx (unat MaxAgentLevel - processed) par)
    \<and> length (tbl_salespersons tx') = length (tbl_salespersons tx)
    \<and> (\<forall>i < length (tbl_salespersons tx).
          tbl_salespersons tx' ! i = (tbl_salespersons tx ! i)
            \<lparr>sp_TotalCommission :=
               foldl (f_add F) (sp_TotalCommission (tbl_salespersons tx ! i))
                 (map ac_CommissionAmount
                    (filter (\<lambda>r. ac_AgentID r = sp_ID (tbl_salespersons tx ! i)) new))\<rparr>)
    \<and> tx'\<lparr>tbl_salespersons := tbl_salespersons tx,
           tbl_salesperson_agent_commissions := tbl_salesperson_agent_commissions tx\<rparr> = tx"
  using assms
proof (induction F sale tx cur par lvl processed arbitrary: tx' rule: cascade.induct)
  case (1 F sale tx cur par lvl processed tx')
  note run = "1.prems"
  have no_rows: ?case
    if "tx' = tx" and "spec_cascade F sale cur lvl (upline tx (unat MaxAgentLevel - processed) par) = []"
    using that by simp
  show ?case
  proof (cases par)
    case None
    with run have "tx' = tx" by (subst (asm) cascade.simps) simp
    then show ?thesis by (intro no_rows) (simp_all add: None upline_None)
  next
    case (Some parentID)
    show ?thesis
    proof (cases "processed < unat MaxAgentLevel")
      case False
      with run Some have "tx' = tx" by (subst (asm) cascade.simps) simp
      moreover from False have "unat MaxAgentLevel - processed = 0" by simp
      ultimately show ?thesis by (intro no_rows) simp_all
    next
      case True
      then obtain n where n: "unat MaxAgentLevel - processed = Suc n"
        and n': "unat MaxAgentLevel - (processed + 1) = n"
        by (cases "unat MaxAgentLevel - processed") auto
      show ?thesis
      proof (cases "find (\<lambda>s. sp_ID s = parentID) (tbl_salespersons tx)")
        case None
        with run Some True show ?thesis by (subst (asm) cascade.simps) simp
      next
        case found: (Some parent)
        define rate where "rate = commissionRate F lvl parent"
        define amount where "amount = f_mul F (sale_SaleAmount sale) rate"
        have rate: "rate = spec_rate F lvl parent"
          by (simp add: rate_def commissionRate_spec)
        show ?thesis
        proof (cases "f_less F amount (f_0_01 F)")
          case small: True
          with run Some True found have "tx' = tx"
            by (subst (asm) cascade.simps) (simp add: Let_def rate_def amount_def)
          then show ?thesis
            using small
            by (intro no_rows) (simp_all add: Some n found Let_def rate [symmetric] amount_def)
        next
          case False
          define row where "row = agentCommission sale cur parent rate amount
              (next_id (map ac_ID (tbl_salesperson_agent_commissions tx)))"
          define rows1 where "rows1 = update_where (\<lambda>s. sp_ID s = sp_ID parent)
              (\<lambda>s. s\<lparr>sp_TotalCommission := f_add F (sp_TotalCommission s) amount\<rparr>)
              (tbl_salespersons tx)"
          define tx1 where "tx1 = tx\<lparr>tbl_salesperson_agent_commissions :=
              tbl_salesperson_agent_commissions tx @ [row], tbl_salespersons := rows1\<rparr>"
          from run Some True found False
          have run1: "cascade F sale tx1 (sp_ID parent) (sp_ParentID parent) (sp_Level parent)
              (processed + 1) = Inr tx'"
            by (subst (asm) cascade.simps)
              (simp add: Let_def rate_def amount_def row_def rows1_def tx1_def)
          have "\<exists>new.
              tbl_salesperson_agent_commissions tx' = tbl_salesperson_agent_commissions tx1 @ new
            \<and> map (\<lambda>r. r\<lparr>ac_ID := 0\<rparr>) new
                = spec_cascade F sale (sp_ID parent) (sp_Level parent)
                    (upline tx1 (unat MaxAgentLevel - (processed + 1)) (sp_ParentID parent))
            \<and> length (tbl_salespersons tx') = length (tbl_salespersons tx1)
            \<and> (\<forall>i < length (tbl_salespersons tx1).
                  tbl_salespersons tx' ! i = (tbl_salespersons tx1 ! i)
                    \<lparr>sp_TotalCommission :=
                       foldl (f_add F) (sp_TotalCommission (tbl_salespersons tx1 ! i))
                         (map ac_CommissionAmount
                            (filter (\<lambda>r. ac_AgentID r = sp_ID (tbl_salespersons tx1 ! i)) new))\<rparr>)
            \<and> tx'\<lparr>tbl_salespersons := tbl_salespersons tx1,
                   tbl_salesperson_agent_commissions := tbl_salesperson_agent_commissions tx1\<rparr>
                = tx1"
          proof (rule "1.IH" [OF Some _ found rate_def amount_def False row_def _ run1])
            show "\<not> \<not> processed < unat MaxAgentLevel" using True by simp
            show "tx1 = tx\<lparr>tbl_salesperson_agent_commissions :=
                tbl_salesperson_agent_commissions tx @ [row],
                tbl_salespersons := update_where (\<lambda>s. sp_ID s = sp_ID parent)
                  (\<lambda>s. s\<lparr>sp_TotalCommission := f_add F (sp_TotalCommission s) amount\<rparr>)
                  (tbl_salespersons tx)\<rparr>"
              by (simp add: tx1_def rows1_def)
          qed
          then obtain new where
            rows: "tbl_salesperson_agent_commissions tx'
                = tbl_salesperson_agent_commissions tx1 @ new"
            and spec: "map (\<lambda>r. r\<lparr>ac_ID := 0\<rparr>) new
                = spec_cascade F sale (sp_ID parent) (sp_Level parent)
                    (upline tx1 n (sp_ParentID parent))"
            and len: "length (tbl_salespersons tx') = length (tbl_salespersons tx1)"
            and totals: "\<forall>i < length (tbl_salespersons tx1).
                  tbl_salespersons tx' ! i = (tbl_salespersons tx1 ! i)
                    \<lparr>sp_TotalCommission :=
                       foldl (f_add F) (sp_TotalCommission (tbl_salespersons tx1 ! i))
                         (map ac_CommissionAmount
                            (filter (\<lambda>r. ac_AgentID r = sp_ID (tbl_salespersons tx1 ! i)) new))\<rparr>"
            and rest: "tx'\<lparr>tbl_salespersons := tbl_salespersons tx1,
                   tbl_salesperson_agent_commissions := tbl_salesperson_agent_commissions tx1\<rparr>
                = tx1"
            unfolding n' by blast
          have tx1_rows: "tbl_salespersons tx1 = rows1"
            and tx1_comm: "tbl_salesperson_agent_commissions tx1
                = tbl_salesperson_agent_commissions tx @ [row]"
            by (simp_all add: tx1_def)
          have "map hierarchy_of (tbl_salespersons tx1) = map hierarchy_of (tbl_salespersons tx)"
            unfolding tx1_rows rows1_def by (rule hierarchy_update_total)
          then have "map hierarchy_of (upline tx1 n (sp_ParentID parent))
              = map hierarchy_of (upline tx n (sp_ParentID parent))"
            by (rule upline_hierarchy)
          then have same: "spec_cascade F sale (sp_ID parent) (sp_Level parent)
                (upline tx1 n (sp_ParentID parent))
              = spec_cascade F sale (sp_ID parent) (sp_Level parent)
                (upline tx n (sp_ParentID parent))"
            by (rule spec_cascade_hierarchy)
          from find_SomeD [OF found] have pid: "sp_ID parent = parentID" by simp
          have len1: "length rows1 = length (tbl_salespersons tx)"
            by (simp add: rows1_def length_update_where)
          show ?thesis
          proof (intro exI [of _ "row # new"] conjI allI impI)
            show "tbl_salesperson_agent_commissions tx'
                = tbl_salesperson_agent_commissions tx @ row # new"
              by (simp add: rows tx1_comm)
            show "map (\<lambda>r. r\<lparr>ac_ID := 0\<rparr>) (row # new)
                = spec_cascade F sale cur lvl (upline tx (unat MaxAgentLevel - processed) par)"
              using False
              by (simp add: Some n found Let_def rate [symmetric] amount_def [symmetric]
                  spec same row_def agentCommission_def)
            show "length (tbl_salespersons tx') = length (tbl_salespersons tx)"
              by (simp add: len tx1_rows len1)
            show "tx'\<lparr>tbl_salespersons := tbl_salespersons tx,
                tbl_salesperson_agent_commissions := tbl_salesperson_agent_commissions tx\<rparr> = tx"
            proof -
              have "tx'\<lparr>tbl_salespersons := tbl_salespersons tx,
                  tbl_salesperson_agent_commissions := tbl_salesperson_agent_commissions tx\<rparr>
                = (tx'\<lparr>tbl_salespersons := tbl_salespersons tx1,
                   tbl_salesperson_agent_commissions := tbl_salesperson_agent_commissions tx1\<rparr>)
                  \<lparr>tbl_salespersons := tbl_salespersons tx,
                   tbl_salesperson_agent_commissions := tbl_salesperson_agent_commissions tx\<rparr>"
                by simp
              also have "\<dots> = tx" unfolding rest by (simp add: tx1_def)
              finally show ?thesis .
            qed
          next
            fix i
            assume i: "i < length (tbl_salespersons tx)"
            let ?s = "tbl_salespersons tx ! i"
            from i have s1: "rows1 ! i = (if sp_ID ?s = sp_ID parent
                then ?s\<lparr>sp_TotalCommission := f_add F (sp_TotalCommission ?s) amount\<rparr> else ?s)"
              by (simp add: rows1_def nth_update_where)
            from i totals have "tbl_salespersons tx' ! i = (rows1 ! i)
                    \<lparr>sp_TotalCommission :=
                       foldl (f_add F) (sp_TotalCommission (rows1 ! i))
                         (map ac_CommissionAmount
                            (filter (\<lambda>r. ac_AgentID r = sp_ID (rows1 ! i)) new))\<rparr>"
              by (simp add: tx1_rows len1)
            then show "tbl_salespersons tx' ! i = ?s
                \<lparr>sp_TotalCommission :=
                   foldl (f_add F) (sp_TotalCommission ?s)
                     (map ac_CommissionAmount
                        (filter (\<lambda>r. ac_AgentID r = sp_ID ?s) (row # new)))\<rparr>"
              by (simp add: s1 row_def agentCommission_def eq_commute [of "sp_ID parent"])
          qed
        qed
      qed
    qed
  qed
qed

text \<open>What the rows owed along a list of ancestors look like.\<close>

lemma length_spec_cascade: "length (spec_cascade F sale below lvl as) \<le> length as"
  by (induction as arbitrary: below lvl) (simp_all add: Let_def)

lemma spec_cascade_agents:
  "map ac_AgentID (spec_cascade F sale below lvl as)
     = map sp_ID (take (length (spec_cascade F sale below lvl as)) as)"
  by (induction as arbitrary: below lvl) (simp_all add: Let_def)

lemma spec_cascade_row:
  "r \<in> set (spec_cascade F sale below lvl as) \<Longrightarrow>
     ac_Status r = ''pending'' \<and> ac_SaleID r = sale_ID sale
     \<and> ac_CommissionAmount r = f_mul F (sale_SaleAmount sale) (ac_CommissionRate r)
     \<and> \<not> f_less F (ac_CommissionAmount r) (f_0_01 F)"
proof (induction as arbitrary: below lvl)
  case Nil
  then show ?case by simp
next
  case (Cons A as)
  then show ?case
    by (auto simp: Let_def split: if_splits)
qed

lemma filter_distinct_map:
  "distinct (map f xs) \<Longrightarrow> x \<in> set xs \<Longrightarrow> filter (\<lambda>y. f y = f x) xs = [x]"
proof (induction xs)
  case Nil
  then show ?case by simp
next
  case (Cons a xs)
  show ?case
  proof (cases "x = a")
    case True
    from Cons.prems(1) have "f a \<notin> f ` set xs" by simp
    then have "filter (\<lambda>y. f y = f a) xs = []"
      unfolding filter_empty_conv by (metis imageI)
    with True show ?thesis by simp
  next
    case False
    with Cons.prems have "x \<in> set xs" and "f a \<noteq> f x" by auto
    with Cons.IH Cons.prems(1) show ?thesis by simp
  qed
qed

text \<open>
  The outcome of a successful run of the handler, in terms of the upline of the seller in
  the store before the sale.
\<close>

lemma ProcessAgentCommission_rows:
  fixes db db' :: "'f database"
  assumes seller: "find (\<lambda>s. sp_ID s = sale_SalespersonID sale) (tbl_salespersons db)
            = Some seller"
    and run: "ProcessAgentCommission F sale db = (Inr (), db')"
  shows "\<exists>new.
      tbl_salesperson_agent_commissions db' = tbl_salesperson_agent_commissions db @ new
    \<and> map (\<lambda>r. r\<lparr>ac_ID := 0\<rparr>) new
        = spec_cascade F sale (sale_SalespersonID sale) (sp_Level seller)
            (upline db (unat MaxAgentLevel) (sp_ParentID seller))
    \<and> length (tbl_salespersons db') = length (tbl_salespersons db)
    \<and> (\<forall>i < length (tbl_salespersons db).
          tbl_salespersons db' ! i = (tbl_salespersons db ! i)
            \<lparr>sp_TotalCommission :=
               foldl (f_add F) (sp_TotalCommission (tbl_salespersons db ! i))
                 (map ac_CommissionAmount
                    (filter (\<lambda>r. ac_AgentID r = sp_ID (tbl_salespersons db ! i)) new))\<rparr>)
    \<and> db'\<lparr>tbl_salespersons := tbl_salespersons db,
           tbl_salesperson_agent_commissions := tbl_salesperson_agent_commissions db\<rparr> = db"
proof (cases "sp_ParentID seller")
  case None
  with seller run have "db' = db"
    by (simp add: ProcessAgentCommission_def)
  then show ?thesis
    by (simp add: None upline_None)
next
  case (Some parentID)
  with seller run
  have "cascade F sale db (sale_SalespersonID sale) (sp_ParentID seller) (sp_Level seller) 0
      = Inr db'"
    by (simp add: ProcessAgentCommission_def split: sum.splits)
  from cascade_rows [OF this] show ?thesis by simp
qed

lemma zeroed_fields:
  assumes "map (\<lambda>r. r\<lparr>ac_ID := 0\<rparr>) new = rows"
  shows "length new = length rows" and "map ac_AgentID new = map ac_AgentID rows"
    and "r \<in> set new \<Longrightarrow> r\<lparr>ac_ID := 0\<rparr> \<in> set rows"
proof -
  from assms show "length new = length rows" by auto
  have "map ac_AgentID (map (\<lambda>r. r\<lparr>ac_ID := 0\<rparr>) new) = map ac_AgentID new"
    by simp
  with assms show "map ac_AgentID new = map ac_AgentID rows" by simp
  show "r \<in> set new \<Longrightarrow> r\<lparr>ac_ID := 0\<rparr> \<in> set rows"
    using assms by auto
qed

text \<open>
  Claim C2. Take a sale of amount \<open>M\<close> by a salesperson on record and a run of the
  handler that succeeds. The rows that it adds are, but for their ids, the rows that the
  specification owes along the upline of the seller: walking up from the parent of the
  seller for at most \<open>MaxAgentLevel\<close> hops, the rate at an ancestor \<open>A\<close> is the
  \<open>parentCommissionRate\<close> of \<open>A\<close> when the current level of the walk (the level of the
  seller at first, then the level of the ancestor before) is \<open>A.level + 1\<close>, and that rate
  divided by 2 to the power \<open>currentLevel - A.level - 1\<close> otherwise; the amount is \<open>M\<close>
  times the rate; and the first ancestor whose amount is below 0.01 ends the walk, so
  that neither it nor any ancestor above it gets a row. In particular the amount of
  every row written is \<open>M\<close> times its rate and not below 0.01, and a salesperson who is
  not the agent of a row written is left as it was.
\<close>

theorem commission_rate_rule:
  fixes db db' :: "'f database"
  assumes seller: "find (\<lambda>s. sp_ID s = sale_SalespersonID sale) (tbl_salespersons db)
            = Some seller"
    and run: "ProcessAgentCommission F sale db = (Inr (), db')"
  shows "\<exists>new.
      tbl_salesperson_agent_commissions db' = tbl_salesperson_agent_commissions db @ new
    \<and> map (\<lambda>r. r\<lparr>ac_ID := 0\<rparr>) new
        = spec_cascade F sale (sale_SalespersonID sale) (sp_Level seller)
            (upline db (unat MaxAgentLevel) (sp_ParentID seller))
    \<and> (\<forall>r \<in> set new.
          ac_CommissionAmount r = f_mul F (sale_SaleAmount sale) (ac_CommissionRate r)
          \<and> \<not> f_less F (ac_CommissionAmount r) (f_0_01 F))
    \<and> length (tbl_salespersons db') = length (tbl_salespersons db)
    \<and> (\<forall>i < length (tbl_salespersons db).
          sp_ID (tbl_salespersons db ! i) \<notin> ac_AgentID ` set new
          \<longrightarrow> tbl_salespersons db' ! i = tbl_salespersons db ! i)"
proof -
  let ?owed = "spec_cascade F sale (sale_SalespersonID sale) (sp_Level seller)
      (upline db (unat MaxAgentLevel) (sp_ParentID seller))"
  from ProcessAgentCommission_rows [OF seller run] obtain new where
    rows: "tbl_salesperson_agent_commissions db' = tbl_salesperson_agent_commissions db @ new"
    and spec: "map (\<lambda>r. r\<lparr>ac_ID := 0\<rparr>) new = ?owed"
    and len: "length (tbl_salespersons db') = length (tbl_salespersons db)"
    and totals: "\<forall>i < length (tbl_salespersons db).
          tbl_salespersons db' ! i = (tbl_salespersons db ! i)
            \<lparr>sp_TotalCommission :=
               foldl (f_add F) (sp_TotalCommission (tbl_salespersons db ! i))
                 (map ac_CommissionAmount
                    (filter (\<lambda>r. ac_AgentID r = sp_ID (tbl_salespersons db ! i)) new))\<rparr>"
    by blast
  have amounts: "ac_CommissionAmount r = f_mul F (sale_SaleAmount sale) (ac_CommissionRate r)
      \<and> \<not> f_less F (ac_CommissionAmount r) (f_0_01 F)" if "r \<in> set new" for r
  proof -
    from that have "r\<lparr>ac_ID := 0\<rparr> \<in> set ?owed"
      by (rule zeroed_fields(3) [OF spec])
    from spec_cascade_row [OF this] show ?thesis by auto
  qed
  have others: "tbl_salespersons db' ! i = tbl_salespersons db ! i"
    if "i < length (tbl_salespersons db)"
      and "sp_ID (tbl_salespersons db ! i) \<notin> ac_AgentID ` set new" for i
  proof -
    from that(2) have "filter (\<lambda>r. ac_AgentID r = sp_ID (tbl_salespersons db ! i)) new = []"
      unfolding filter_empty_conv by (metis imageI)
    with totals that(1) show ?thesis by simp
  qed
  show ?thesis
  proof (intro exI [of _ new] conjI ballI allI impI)
    show "tbl_salesperson_agent_commissions db' = tbl_salesperson_agent_commissions db @ new"
      by (rule rows)
    show "map (\<lambda>r. r\<lparr>ac_ID := 0\<rparr>) new = ?owed" by (rule spec)
    show "length (tbl_salespersons db') = length (tbl_salespersons db)" by (rule len)
  next
    fix r assume "r \<in> set new"
    from amounts [OF this]
    show "ac_CommissionAmount r = f_mul F (sale_SaleAmount sale) (ac_CommissionRate r)"
      and "\<not> f_less F (ac_CommissionAmount r) (f_0_01 F)" by auto
  next
    fix i
    assume "i < length (tbl_salespersons db)"
      and "sp_ID (tbl_salespersons db ! i) \<notin> ac_AgentID ` set new"
    then show "tbl_salespersons db' ! i = tbl_salespersons db ! i" by (rule others)
  qed
qed

lemma db2_tables:
  "tbl_salespersons db2 = [example_sp 1 ''R'' None 0 1,
     (example_sp 2 ''T'' (Some 1) 1 1)\<lparr>sp_ParentCommissionRate := 1 / 100\<rparr>,
     example_sp 3 ''U'' (Some 2) 2 1, example_sp 4 ''V'' (Some 3) 4 1,
     example_sp 5 ''W'' (Some 4) 5 0]"
  "tbl_salesperson_agent_commissions db2 = []"
  by (simp_all add: db2_def empty_db_def)

lemma db2_seller:
  "find (\<lambda>s. sp_ID s = sale_SalespersonID sale_by_W) (tbl_salespersons db2)
     = Some (example_sp 5 ''W'' (Some 4) 5 0)"
  by (simp add: db2_tables sale_by_W_def example_sale_def example_sp_def)

lemma db2_upline:
  "upline db2 (unat MaxAgentLevel) (sp_ParentID (example_sp 5 ''W'' (Some 4) 5 0))
     = [example_sp 4 ''V'' (Some 3) 4 1, example_sp 3 ''U'' (Some 2) 2 1,
        (example_sp 2 ''T'' (Some 1) 1 1)\<lparr>sp_ParentCommissionRate := 1 / 100\<rparr>,
        example_sp 1 ''R'' None 0 1]"
proof -
  have "unat MaxAgentLevel = Suc (Suc (Suc (Suc (Suc 0))))"
    by (simp add: MaxAgentLevel_def)
  then show ?thesis
    by (simp add: db2_tables example_sp_def)
qed

lemma db2_owed:
  "spec_cascade exact_ops sale_by_W (sale_SalespersonID sale_by_W)
     (sp_Level (example_sp 5 ''W'' (Some 4) 5 0))
     [example_sp 4 ''V'' (Some 3) 4 1, example_sp 3 ''U'' (Some 2) 2 1,
      (example_sp 2 ''T'' (Some 1) 1 1)\<lparr>sp_ParentCommissionRate := 1 / 100\<rparr>,
      example_sp 1 ''R'' None 0 1]
   = [example_commission 5 4 4 (3 / 10) (1 / 10) (3 / 100),
      example_commission 4 3 2 (3 / 10) (1 / 20) (3 / 200)]"
  by (simp add: sale_by_W_def example_sale_def example_sp_def example_commission_def
      spec_rate_def exact_ops_def pow_real_def Let_def)

lemma db2_run: "fst (ProcessAgentCommission exact_ops sale_by_W db2) = Inr ()"
  by (simp add: ProcessAgentCommission_def sale_by_W_def example_sale_def db2_tables
      example_sp_def cascade.simps commissionRate_def exact_ops_def pow_real_def
      MaxAgentLevel_def Let_def update_where_def agentCommission_def)

theorem commission_rate_rule_witness:
  "fst (ProcessAgentCommission exact_ops sale_by_W db2) = Inr ()
   \<and> map (\<lambda>r. r\<lparr>ac_ID := 0\<rparr>)
       (tbl_salesperson_agent_commissions (snd (ProcessAgentCommission exact_ops sale_by_W db2)))
     = [example_commission 5 4 4 (3 / 10) (1 / 10) (3 / 100),
        example_commission 4 3 2 (3 / 10) (1 / 20) (3 / 200)]"
proof
  show success: "fst (ProcessAgentCommission exact_ops sale_by_W db2) = Inr ()"
    by (rule db2_run)
  define db' where "db' = snd (ProcessAgentCommission exact_ops sale_by_W db2)"
  from success have "ProcessAgentCommission exact_ops sale_by_W db2 = (Inr (), db')"
    unfolding db'_def by (metis prod.collapse)
  from commission_rate_rule [OF db2_seller this] obtain new where
    "tbl_salesperson_agent_commissions db' = tbl_salesperson_agent_commissions db2 @ new"
    and "map (\<lambda>r. r\<lparr>ac_ID := 0\<rparr>) new
        = spec_cascade exact_ops sale_by_W (sale_SalespersonID sale_by_W)
            (sp_Level (example_sp 5 ''W'' (Some 4) 5 0))
            (upline db2 (unat MaxAgentLevel) (sp_ParentID (example_sp 5 ''W'' (Some 4) 5 0)))"
    by blast
  then show "map (\<lambda>r. r\<lparr>ac_ID := 0\<rparr>)
       (tbl_salesperson_agent_commissions (snd (ProcessAgentCommission exact_ops sale_by_W db2)))
     = [example_commission 5 4 4 (3 / 10) (1 / 10) (3 / 100),
        example_commission 4 3 2 (3 / 10) (1 / 20) (3 / 200)]"
    unfolding db'_def [symmetric] db2_upline db2_owed by (simp add: db2_tables)
qed

text \<open>
  In a hierarchy without a cycle no salesperson occurs twice in an upline: every ancestor
  of the walk is reached from the first one by steps from child to parent.
\<close>

lemma upline_reached:
  "A \<in> set (upline db n (Some q)) \<Longrightarrow> (q, sp_ID A) \<in> (parent_rel db)\<^sup>*"
proof (induction n arbitrary: q)
  case 0
  then show ?case by simp
next
  case (Suc n)
  show ?case
  proof (cases "find (\<lambda>s. sp_ID s = q) (tbl_salespersons db)")
    case None
    with Suc.prems show ?thesis by simp
  next
    case (Some B)
    from find_SomeD [OF Some] have B: "B \<in> set (tbl_salespersons db)" "sp_ID B = q"
      by simp_all
    from Suc.prems Some have "A = B \<or> A \<in> set (upline db n (sp_ParentID B))" by simp
    then show ?thesis
    proof
      assume "A = B"
      with B show ?thesis by simp
    next
      assume rest: "A \<in> set (upline db n (sp_ParentID B))"
      then obtain q' where parent: "sp_ParentID B = Some q'"
        by (cases "sp_ParentID B") (simp_all add: upline_None)
      with B have "(q, q') \<in> parent_rel db"
        by (auto intro: parent_relI)
      moreover from rest parent have "(q', sp_ID A) \<in> (parent_rel db)\<^sup>*"
        by (simp add: Suc.IH)
      ultimately show ?thesis by (rule converse_rtrancl_into_rtrancl)
    qed
  qed
qed

lemma upline_distinct:
  assumes "acyclic (parent_rel db)"
  shows "distinct (map sp_ID (upline db n p))"
proof (induction n arbitrary: p)
  case 0
  show ?case by simp
next
  case (Suc n)
  show ?case
  proof (cases p)
    case None
    then show ?thesis by simp
  next
    case (Some q)
    show ?thesis
    proof (cases "find (\<lambda>s. sp_ID s = q) (tbl_salespersons db)")
      case None
      with Some show ?thesis by simp
    next
      case found: (Some B)
      from find_SomeD [OF found] have B: "B \<in> set (tbl_salespersons db)" by simp
      have "sp_ID B \<noteq> sp_ID A" if "A \<in> set (upline db n (sp_ParentID B))" for A
      proof
        assume same: "sp_ID B = sp_ID A"
        from that obtain q' where parent: "sp_ParentID B = Some q'"
          by (cases "sp_ParentID B") (simp_all add: upline_None)
        with B have "(sp_ID B, q') \<in> parent_rel db"
          by (rule parent_relI)
        moreover from that parent have "(q', sp_ID A) \<in> (parent_rel db)\<^sup>*"
          by (simp add: upline_reached)
        ultimately have "(sp_ID B, sp_ID A) \<in> (parent_rel db)\<^sup>+"
          by (rule rtrancl_into_trancl2)
        with same assms show False by (simp add: acyclic_def)
      qed
      then have "sp_ID B \<notin> sp_ID ` set (upline db n (sp_ParentID B))" by auto
      with Suc.IH [of "sp_ParentID B"] show ?thesis
        by (simp add: Some found)
    qed
  qed
qed

text \<open>
  Claim C3. Take a sale by a salesperson on record. If the seller has no parent, the
  handler succeeds and leaves the store as it is. If the handler succeeds, the rows that
  it adds are, but for their ids, those owed along the upline of the seller: at most
  \<open>MaxAgentLevel\<close>, that is 5, of them, one for each ancestor of the walk up to the
  cutoff and in the order of the walk, each pending and for this sale; and the total
  commission of every salesperson has grown by the amounts of the rows of which it is the
  agent, added one after the other. When no salesperson occurs twice among the ancestors
  of the walk, as in a hierarchy without a cycle, no two rows have the same agent: the
  total of the agent of a row has grown by the amount of that row and nothing else, and
  everybody else is as before.
\<close>

theorem commission_cascade_rows:
  fixes db db' :: "'f database"
  assumes seller: "find (\<lambda>s. sp_ID s = sale_SalespersonID sale) (tbl_salespersons db)
            = Some seller"
  shows "(sp_ParentID seller = None \<longrightarrow> ProcessAgentCommission F sale db = (Inr (), db))
    \<and> (ProcessAgentCommission F sale db = (Inr (), db') \<longrightarrow>
        (\<exists>new.
            tbl_salesperson_agent_commissions db' = tbl_salesperson_agent_commissions db @ new
          \<and> length new \<le> unat MaxAgentLevel \<and> unat MaxAgentLevel = 5
          \<and> map (\<lambda>r. r\<lparr>ac_ID := 0\<rparr>) new
              = spec_cascade F sale (sale_SalespersonID sale) (sp_Level seller)
                  (upline db (unat MaxAgentLevel) (sp_ParentID seller))
          \<and> map ac_AgentID new
              = map sp_ID (take (length new)
                  (upline db (unat MaxAgentLevel) (sp_ParentID seller)))
          \<and> (\<forall>r \<in> set new. ac_Status r = ''pending'' \<and> ac_SaleID r = sale_ID sale)
          \<and> length (tbl_salespersons db') = length (tbl_salespersons db)
          \<and> (\<forall>i < length (tbl_salespersons db).
                tbl_salespersons db' ! i = (tbl_salespersons db ! i)
                  \<lparr>sp_TotalCommission :=
                     foldl (f_add F) (sp_TotalCommission (tbl_salespersons db ! i))
                       (map ac_CommissionAmount
                          (filter (\<lambda>r. ac_AgentID r = sp_ID (tbl_salespersons db ! i)) new))\<rparr>)
          \<and> (distinct (map sp_ID (upline db (unat MaxAgentLevel) (sp_ParentID seller))) \<longrightarrow>
                distinct (map ac_AgentID new)
                \<and> (\<forall>i < length (tbl_salespersons db).
                      (\<forall>r \<in> set new. ac_AgentID r = sp_ID (tbl_salespersons db ! i) \<longrightarrow>
                          tbl_salespersons db' ! i = (tbl_salespersons db ! i)
                            \<lparr>sp_TotalCommission :=
                               f_add F (sp_TotalCommission (tbl_salespersons db ! i))
                                 (ac_CommissionAmount r)\<rparr>)
                      \<and> (sp_ID (tbl_salespersons db ! i) \<notin> ac_AgentID ` set new \<longrightarrow>
                          tbl_salespersons db' ! i = tbl_salespersons db ! i)))))"
proof (intro conjI impI)
  assume "sp_ParentID seller = None"
  with seller show "ProcessAgentCommission F sale db = (Inr (), db)"
    by (simp add: ProcessAgentCommission_def)
next
  let ?ups = "upline db (unat MaxAgentLevel) (sp_ParentID seller)"
  let ?owed = "spec_cascade F sale (sale_SalespersonID sale) (sp_Level seller) ?ups"
  let ?rows = "tbl_salespersons db"
  assume "ProcessAgentCommission F sale db = (Inr (), db')"
  from ProcessAgentCommission_rows [OF seller this] obtain new where
    rows: "tbl_salesperson_agent_commissions db' = tbl_salesperson_agent_commissions db @ new"
    and spec: "map (\<lambda>r. r\<lparr>ac_ID := 0\<rparr>) new = ?owed"
    and len: "length (tbl_salespersons db') = length ?rows"
    and totals: "\<forall>i < length ?rows.
          tbl_salespersons db' ! i = (?rows ! i)
            \<lparr>sp_TotalCommission :=
               foldl (f_add F) (sp_TotalCommission (?rows ! i))
                 (map ac_CommissionAmount
                    (filter (\<lambda>r. ac_AgentID r = sp_ID (?rows ! i)) new))\<rparr>"
    by blast
  note zeroed = zeroed_fields [OF spec]
  have count: "length new \<le> unat MaxAgentLevel"
    using length_spec_cascade [of F sale "sale_SalespersonID sale" "sp_Level seller" ?ups]
      length_upline [of db "unat MaxAgentLevel" "sp_ParentID seller"]
    by (simp add: zeroed(1))
  have five: "unat MaxAgentLevel = 5"
    by (simp add: MaxAgentLevel_def)
  have agents: "map ac_AgentID new = map sp_ID (take (length new) ?ups)"
    by (simp add: zeroed(1,2) spec_cascade_agents)
  have pending: "ac_Status r = ''pending'' \<and> ac_SaleID r = sale_ID sale" if "r \<in> set new" for r
    using spec_cascade_row [OF zeroed(3) [OF that]] by simp
  have single: "distinct (map ac_AgentID new)
      \<and> (\<forall>i < length ?rows.
            (\<forall>r \<in> set new. ac_AgentID r = sp_ID (?rows ! i) \<longrightarrow>
                tbl_salespersons db' ! i = (?rows ! i)
                  \<lparr>sp_TotalCommission :=
                     f_add F (sp_TotalCommission (?rows ! i)) (ac_CommissionAmount r)\<rparr>)
            \<and> (sp_ID (?rows ! i) \<notin> ac_AgentID ` set new \<longrightarrow>
                tbl_salespersons db' ! i = ?rows ! i))"
    if "distinct (map sp_ID ?ups)"
  proof (intro conjI allI impI ballI)
    from that have "distinct (map sp_ID (take (length new) ?ups))"
      by (simp add: distinct_take take_map [symmetric])
    then show once: "distinct (map ac_AgentID new)"
      by (simp add: agents)
    fix i
    assume i: "i < length ?rows"
    {
      fix r
      assume r: "r \<in> set new" and agent: "ac_AgentID r = sp_ID (?rows ! i)"
      from filter_distinct_map [OF once r]
      have "filter (\<lambda>r'. ac_AgentID r' = sp_ID (?rows ! i)) new = [r]"
        by (simp add: agent)
      with totals i show "tbl_salespersons db' ! i = (?rows ! i)
          \<lparr>sp_TotalCommission :=
             f_add F (sp_TotalCommission (?rows ! i)) (ac_CommissionAmount r)\<rparr>"
        by simp
    }
    assume "sp_ID (?rows ! i) \<notin> ac_AgentID ` set new"
    then have "filter (\<lambda>r. ac_AgentID r = sp_ID (?rows ! i)) new = []"
      unfolding filter_empty_conv by (metis imageI)
    with totals i show "tbl_salespersons db' ! i = ?rows ! i" by simp
  qed
  show "\<exists>new.
            tbl_salesperson_agent_commissions db' = tbl_salesperson_agent_commissions db @ new
          \<and> length new \<le> unat MaxAgentLevel \<and> unat MaxAgentLevel = 5
          \<and> map (\<lambda>r. r\<lparr>ac_ID := 0\<rparr>) new = ?owed
          \<and> map ac_AgentID new = map sp_ID (take (length new) ?ups)
          \<and> (\<forall>r \<in> set new. ac_Status r = ''pending'' \<and> ac_SaleID r = sale_ID sale)
          \<and> length (tbl_salespersons db') = length ?rows
          \<and> (\<forall>i < length ?rows.
                tbl_salespersons db' ! i = (?rows ! i)
                  \<lparr>sp_TotalCommission :=
                     foldl (f_add F) (sp_TotalCommission (?rows ! i))
                       (map ac_CommissionAmount
                          (filter (\<lambda>r. ac_AgentID r = sp_ID (?rows ! i)) new))\<rparr>)
          \<and> (distinct (map sp_ID ?ups) \<longrightarrow>
                distinct (map ac_AgentID new)
                \<and> (\<forall>i < length ?rows.
                      (\<forall>r \<in> set new. ac_AgentID r = sp_ID (?rows ! i) \<longrightarrow>
                          tbl_salespersons db' ! i = (?rows ! i)
                            \<lparr>sp_TotalCommission :=
                               f_add F (sp_TotalCommission (?rows ! i))
                                 (ac_CommissionAmount r)\<rparr>)
                      \<and> (sp_ID (?rows ! i) \<notin> ac_AgentID ` set new \<longrightarrow>
                          tbl_salespersons db' ! i = ?rows ! i)))"
  proof (intro exI [of _ new] conjI)
    show "tbl_salesperson_agent_commissions db' = tbl_salesperson_agent_commissions db @ new"
      by (rule rows)
    show "length new \<le> unat MaxAgentLevel" by (rule count)
    show "unat MaxAgentLevel = 5" by (rule five)
    show "map (\<lambda>r. r\<lparr>ac_ID := 0\<rparr>) new = ?owed" by (rule spec)
    show "map ac_AgentID new = map sp_ID (take (length new) ?ups)" by (rule agents)
    show "\<forall>r \<in> set new. ac_Status r = ''pending'' \<and> ac_SaleID r = sale_ID sale"
      using pending by blast
    show "length (tbl_salespersons db') = length ?rows" by (rule len)
    show "\<forall>i < length ?rows.
          tbl_salespersons db' ! i = (?rows ! i)
            \<lparr>sp_TotalCommission :=
               foldl (f_add F) (sp_TotalCommission (?rows ! i))
                 (map ac_CommissionAmount
                    (filter (\<lambda>r. ac_AgentID r = sp_ID (?rows ! i)) new))\<rparr>"
      by (rule totals)
    show "distinct (map sp_ID ?ups) \<longrightarrow>
          distinct (map ac_AgentID new)
          \<and> (\<forall>i < length ?rows.
                (\<forall>r \<in> set new. ac_AgentID r = sp_ID (?rows ! i) \<longrightarrow>
                    tbl_salespersons db' ! i = (?rows ! i)
                      \<lparr>sp_TotalCommission :=
                         f_add F (sp_TotalCommission (?rows ! i))
                           (ac_CommissionAmount r)\<rparr>)
                \<and> (sp_ID (?rows ! i) \<notin> ac_AgentID ` set new \<longrightarrow>
                    tbl_salespersons db' ! i = ?rows ! i))"
      using single by blast
  qed
qed

lemma db1_sellers:
  "find (\<lambda>s. sp_ID s = sale_SalespersonID sale_by_A) (tbl_salespersons db1)
     = Some (example_sp 1 ''A'' None 0 1)"
  "find (\<lambda>s. sp_ID s = sale_SalespersonID sale_by_C) (tbl_salespersons db1)
     = Some (example_sp 3 ''C'' (Some 2) 2 0)"
  by (simp_all add: db1_tables sale_by_A_def sale_by_C_def example_sale_def example_sp_def)

lemma db1_upline:
  "upline db1 (unat MaxAgentLevel) (sp_ParentID (example_sp 3 ''C'' (Some 2) 2 0))
     = [example_sp 2 ''B'' (Some 1) 1 1, example_sp 1 ''A'' None 0 1]"
proof -
  have "unat MaxAgentLevel = Suc (Suc (Suc (Suc (Suc 0))))"
    by (simp add: MaxAgentLevel_def)
  then show ?thesis
    by (simp add: db1_tables example_sp_def)
qed

lemma db1_owed:
  "spec_cascade exact_ops sale_by_C (sale_SalespersonID sale_by_C)
     (sp_Level (example_sp 3 ''C'' (Some 2) 2 0))
     [example_sp 2 ''B'' (Some 1) 1 1, example_sp 1 ''A'' None 0 1]
   = [example_commission 3 2 1 100 (1 / 10) 10, example_commission 2 1 0 100 (1 / 10) 10]"
  by (simp add: sale_by_C_def example_sale_def example_sp_def example_commission_def
      spec_rate_def exact_ops_def pow_real_def Let_def)

lemma db1_run: "fst (ProcessAgentCommission exact_ops sale_by_C db1) = Inr ()"
  by (simp add: ProcessAgentCommission_def sale_by_C_def example_sale_def db1_tables
      example_sp_def cascade.simps commissionRate_def exact_ops_def pow_real_def
      MaxAgentLevel_def Let_def update_where_def agentCommission_def)

theorem commission_cascade_rows_witness:
  "ProcessAgentCommission exact_ops sale_by_A db1 = (Inr (), db1)
   \<and> fst (ProcessAgentCommission exact_ops sale_by_C db1) = Inr ()
   \<and> map (\<lambda>r. r\<lparr>ac_ID := 0\<rparr>)
       (tbl_salesperson_agent_commissions (snd (ProcessAgentCommission exact_ops sale_by_C db1)))
     = [example_commission 3 2 1 100 (1 / 10) 10, example_commission 2 1 0 100 (1 / 10) 10]
   \<and> tbl_salespersons (snd (ProcessAgentCommission exact_ops sale_by_C db1))
     = [(example_sp 1 ''A'' None 0 1)\<lparr>sp_TotalCommission := 10\<rparr>,
        (example_sp 2 ''B'' (Some 1) 1 1)\<lparr>sp_TotalCommission := 10\<rparr>,
        example_sp 3 ''C'' (Some 2) 2 0]"
proof (intro conjI)
  have "sp_ParentID (example_sp 1 ''A'' None 0 1) = None"
    by (simp add: example_sp_def)
  with commission_cascade_rows [OF db1_sellers(1), where F = exact_ops]
  show "ProcessAgentCommission exact_ops sale_by_A db1 = (Inr (), db1)"
    by blast
  show success: "fst (ProcessAgentCommission exact_ops sale_by_C db1) = Inr ()"
    by (rule db1_run)
  define db' where "db' = snd (ProcessAgentCommission exact_ops sale_by_C db1)"
  let ?rows = "tbl_salespersons db1"
  from success have run: "ProcessAgentCommission exact_ops sale_by_C db1 = (Inr (), db')"
    unfolding db'_def by (metis prod.collapse)
  have once: "distinct (map sp_ID [example_sp 2 ''B'' (Some 1) 1 1, example_sp 1 ''A'' None 0 1])"
    by (simp add: example_sp_def)
  from commission_cascade_rows [OF db1_sellers(2), where F = exact_ops and db' = db',
      THEN conjunct2, THEN mp, OF run, unfolded db1_upline db1_owed]
  obtain new where
    rows: "tbl_salesperson_agent_commissions db' = tbl_salesperson_agent_commissions db1 @ new"
    and "length new \<le> unat MaxAgentLevel" and "unat MaxAgentLevel = 5"
    and owed: "map (\<lambda>r. r\<lparr>ac_ID := 0\<rparr>) new
        = [example_commission 3 2 1 100 (1 / 10) 10, example_commission 2 1 0 100 (1 / 10) 10]"
    and "map ac_AgentID new = map sp_ID (take (length new)
        [example_sp 2 ''B'' (Some 1) 1 1, example_sp 1 ''A'' None 0 1])"
    and "\<forall>r \<in> set new. ac_Status r = ''pending'' \<and> ac_SaleID r = sale_ID sale_by_C"
    and len: "length (tbl_salespersons db') = length ?rows"
    and "\<forall>i < length ?rows.
        tbl_salespersons db' ! i = (?rows ! i)
          \<lparr>sp_TotalCommission :=
             foldl (f_add exact_ops) (sp_TotalCommission (?rows ! i))
               (map ac_CommissionAmount
                  (filter (\<lambda>r. ac_AgentID r = sp_ID (?rows ! i)) new))\<rparr>"
    and single: "distinct (map sp_ID [example_sp 2 ''B'' (Some 1) 1 1, example_sp 1 ''A'' None 0 1])
      \<longrightarrow> distinct (map ac_AgentID new)
        \<and> (\<forall>i < length ?rows.
              (\<forall>r \<in> set new. ac_AgentID r = sp_ID (?rows ! i) \<longrightarrow>
                  tbl_salespersons db' ! i = (?rows ! i)
                    \<lparr>sp_TotalCommission :=
                       f_add exact_ops (sp_TotalCommission (?rows ! i)) (ac_CommissionAmount r)\<rparr>)
              \<and> (sp_ID (?rows ! i) \<notin> ac_AgentID ` set new \<longrightarrow>
                  tbl_salespersons db' ! i = ?rows ! i))"
    by (elim exE conjE) (rule that)
  from single [THEN mp, OF once, THEN conjunct2]
  have credit: "\<forall>i < length ?rows.
        (\<forall>r \<in> set new. ac_AgentID r = sp_ID (?rows ! i) \<longrightarrow>
            tbl_salespersons db' ! i = (?rows ! i)
              \<lparr>sp_TotalCommission :=
                 f_add exact_ops (sp_TotalCommission (?rows ! i)) (ac_CommissionAmount r)\<rparr>)
        \<and> (sp_ID (?rows ! i) \<notin> ac_AgentID ` set new \<longrightarrow>
            tbl_salespersons db' ! i = ?rows ! i)" .
  from rows owed
  show "map (\<lambda>r. r\<lparr>ac_ID := 0\<rparr>) (tbl_salesperson_agent_commissions db')
     = [example_commission 3 2 1 100 (1 / 10) 10, example_commission 2 1 0 100 (1 / 10) 10]"
    by (simp add: db1_tables db1_def empty_db_def)
  from owed obtain forB forA where new: "new = [forB, forA]"
    and forB: "forB\<lparr>ac_ID := 0\<rparr> = example_commission 3 2 1 100 (1 / 10) 10"
    and forA: "forA\<lparr>ac_ID := 0\<rparr> = example_commission 2 1 0 100 (1 / 10) 10"
    by auto
  have "ac_AgentID (forB\<lparr>ac_ID := 0\<rparr>) = 2" "ac_CommissionAmount (forB\<lparr>ac_ID := 0\<rparr>) = 10"
    "ac_AgentID (forA\<lparr>ac_ID := 0\<rparr>) = 1" "ac_CommissionAmount (forA\<lparr>ac_ID := 0\<rparr>) = 10"
    unfolding forA forB by (simp_all add: example_commission_def)
  then have fields: "ac_AgentID forB = 2" "ac_CommissionAmount forB = 10"
    "ac_AgentID forA = 1" "ac_CommissionAmount forA = 10"
    by simp_all
  have len3: "length (tbl_salespersons db') = 3"
    using len by (simp add: db1_tables)
  from credit [rule_format, of 0, THEN conjunct1, rule_format, of forA]
  have A: "tbl_salespersons db' ! 0 = (example_sp 1 ''A'' None 0 1)\<lparr>sp_TotalCommission := 10\<rparr>"
    by (simp add: db1_tables new fields example_sp_def exact_ops_def)
  from credit [rule_format, of 1, THEN conjunct1, rule_format, of forB]
  have B: "tbl_salespersons db' ! 1
      = (example_sp 2 ''B'' (Some 1) 1 1)\<lparr>sp_TotalCommission := 10\<rparr>"
    by (simp add: db1_tables new fields example_sp_def exact_ops_def)
  from credit [rule_format, of 2, THEN conjunct2, rule_format]
  have C: "tbl_salespersons db' ! 2 = example_sp 3 ''C'' (Some 2) 2 0"
    by (simp add: db1_tables new fields example_sp_def)
  from len3 obtain a b c where abc: "tbl_salespersons db' = [a, b, c]"
    by (auto simp: length_Suc_conv numeral_3_eq_3)
  with A B C show "tbl_salespersons db'
     = [(example_sp 1 ''A'' None 0 1)\<lparr>sp_TotalCommission := 10\<rparr>,
        (example_sp 2 ''B'' (Some 1) 1 1)\<lparr>sp_TotalCommission := 10\<rparr>,
        example_sp 3 ''C'' (Some 2) 2 0]"
    by simp
qed

text \<open>
  Claim C3 needs the condition that no salesperson occurs twice among the ancestors: the
  walk follows the parents for five hops and does not look whether it has met a
  salesperson before. In the store where A and B are each other's parent (the one left
  by the acceptance above, with the failed query), a sale of 100 by C, who is below B,
  gives B three rows and A two for this one sale, and their totals grow by 30 and by 80.
\<close>

theorem cascade_repeats_on_cycle:
  "find (\<lambda>s. sp_ID s = sale_SalespersonID sale_by_C) (tbl_salespersons db1_cycle)
     = Some (example_sp 3 ''C'' (Some 2) 2 0)
   \<and> fst (ProcessAgentCommission exact_ops sale_by_C db1_cycle) = Inr ()
   \<and> map (\<lambda>r. (ac_AgentID r, ac_CommissionAmount r))
       (tbl_salesperson_agent_commissions
          (snd (ProcessAgentCommission exact_ops sale_by_C db1_cycle)))
     = [(2, 10), (1, 40), (2, 10), (1, 40), (2, 10)]
   \<and> map (\<lambda>s. (sp_ID s, sp_TotalCommission s))
       (tbl_salespersons (snd (ProcessAgentCommission exact_ops sale_by_C db1_cycle)))
     = [(1, 80), (2, 30), (3, 0)]"
  by (simp add: ProcessAgentCommission_def sale_by_C_def example_sale_def db1_cycle_def
      empty_db_def example_sp_def cascade.simps commissionRate_def exact_ops_def pow_real_def
      MaxAgentLevel_def Let_def update_where_def agentCommission_def)

end
